theory Spec2Isabelle
  imports Main "HOL-Library.Word"
begin

section \<open>Data model of \<^verbatim>\<open>button_static.h\<close>\<close>

text \<open>
  Tick counters are \<^verbatim>\<open>uint32_t\<close>, stage counts and loop counters \<^verbatim>\<open>uint8_t\<close>: both are
  machine words, so that subtraction and increment wrap around as they do in C.

  A pointer is the index of a cell in a typed memory; \<open>0\<close> is the null pointer and
  \<open>p + i\<close> is the cell of the element \<open>p[i]\<close>. Function pointers and the opaque
  \<^verbatim>\<open>void*\<close> context are addresses that are only compared with null and passed on.
\<close>

type_synonym u32 = "32 word"
type_synonym u8 = "8 word"
type_synonym ptr = nat

definition NULL :: ptr where
  "NULL = 0"

definition BUTTON_DEBOUNCE_TICKS :: u32 where
  "BUTTON_DEBOUNCE_TICKS = 50"

definition BUTTON_LONG_PRESS_TICKS :: u32 where
  "BUTTON_LONG_PRESS_TICKS = 1000"

definition BUTTON_HOLD_TICKS :: u32 where
  "BUTTON_HOLD_TICKS = 50"

definition BUTTON_SUPER_LONG_PRESS_TICKS :: u32 where
  "BUTTON_SUPER_LONG_PRESS_TICKS = 5000"

datatype button_active_level_t =
  BUTTON_ACTIVE_LOW | BUTTON_ACTIVE_HIGH | BUTTON_ACTIVE_MAX

text \<open>The integer value of the enumerator, for the range check of \<^verbatim>\<open>Button_Init\<close>.\<close>

fun active_level_value :: "button_active_level_t \<Rightarrow> nat" where
  "active_level_value BUTTON_ACTIVE_LOW = 0"
| "active_level_value BUTTON_ACTIVE_HIGH = 1"
| "active_level_value BUTTON_ACTIVE_MAX = 2"

datatype button_event_t =
  BUTTON_EVENT_NONE
  | BUTTON_EVENT_PRESSED
  | BUTTON_EVENT_RELEASED
  | BUTTON_EVENT_LONG_PRESSED
  | BUTTON_EVENT_HOLD
  | BUTTON_EVENT_SUPER_LONG_PRESSED
  | BUTTON_EVENT_MAX

text \<open>
  The four states of the header, and one more value standing for any other integer
  the field may hold: only the \<^verbatim>\<open>default\<close> branch of \<^verbatim>\<open>Button_Update\<close> meets it.
\<close>

datatype button_state_t =
  STATE_IDLE | STATE_DEBOUNCE | STATE_PRESSED | STATE_LONG_PRESSED | STATE_OUT_OF_RANGE

record button_stage_config_t =
  threshold :: u32
  event :: button_event_t

record button_stage_manager_t =
  configs :: ptr
  latches :: ptr
  count :: u8

record button_t =
  last_change_tick :: u32
  press_start_tick :: u32
  last_hold_tick :: u32
  gpio_num :: u32
  active_level :: button_active_level_t
  last_state :: button_state_t
  last_event :: button_event_t
  is_long_pressed_triggered :: bool
  context_ptr :: ptr
  callback :: ptr
  read_pin_func :: ptr
  get_tick_func :: ptr
  stages :: button_stage_manager_t

datatype button_error_t =
  BUTTON_OK
  | BUTTON_ERR_INVALID_ARG
  | BUTTON_ERR_HW_FAIL
  | BUTTON_ERR_INVALID_STAGES
  | BUTTON_ERR_NOT_INIT
  | BUTTON_ERR_UNKNOWN

text \<open>
  What lies outside the button record: the caller's array of stage configurations
  (read only), the caller's array of latches (written by the engine), and the calls made
  to the registered callback so far, each with the callback's address, the event and the
  context it was given. The callback is the application's: the model records that it
  is called and assumes it leaves the button record and both arrays alone.
\<close>

type_synonym callback_call = "ptr \<times> button_event_t \<times> ptr"

record world =
  stage_mem :: "ptr \<Rightarrow> button_stage_config_t"
  latch_mem :: "ptr \<Rightarrow> bool"
  delivered :: "callback_call list"

section \<open>The operations of \<^verbatim>\<open>button_static.c\<close>\<close>

text \<open>
  \<^verbatim>\<open>if (button->callback) button->callback(ev, button->context);\<close>,
  the guarded call every dispatch of the source consists of.
\<close>

definition dispatch :: "button_t \<Rightarrow> button_event_t \<Rightarrow> world \<Rightarrow> world" where
  "dispatch button ev w =
     (if callback button \<noteq> NULL
      then w\<lparr>delivered := delivered w @ [(callback button, ev, context_ptr button)]\<rparr>
      else w)"

text \<open>
  The loop of \<^verbatim>\<open>validate_stages\<close>, from index \<open>i\<close> on: it returns false at the first
  threshold that does not exceed its predecessor.
\<close>

function validate_stages_from :: "(ptr \<Rightarrow> button_stage_config_t) \<Rightarrow> ptr \<Rightarrow> u8 \<Rightarrow> u8 \<Rightarrow> bool" where
  "validate_stages_from mem cfg cnt i =
     (if i < cnt
      then (if threshold (mem (cfg + unat i)) \<le> threshold (mem (cfg + unat (i - 1)))
            then False
            else validate_stages_from mem cfg cnt (i + 1))
      else True)"
  by pat_completeness auto
termination
proof (relation "measure (\<lambda>(mem, cfg, cnt, i). unat cnt - unat i)", goal_cases)
  case 1
  show ?case by simp
next
  case (2 mem cfg cnt i)
  from \<open>i < cnt\<close> have lt: "unat i < unat cnt"
    by (simp add: word_less_nat_alt)
  moreover have "unat cnt < 256"
    using unsigned_less [of cnt] by simp
  ultimately have "unat (i + 1) = Suc (unat i)"
    by (simp add: unat_word_ariths)
  with lt show ?case by simp
qed

definition validate_stages :: "(ptr \<Rightarrow> button_stage_config_t) \<Rightarrow> ptr \<Rightarrow> u8 \<Rightarrow> bool" where
  "validate_stages mem cfg cnt =
     (if cfg = NULL \<or> cnt = 0 then False
      else if threshold (mem (cfg + 0)) = 0 then False
      else validate_stages_from mem cfg cnt 1)"

text \<open>
  \<^verbatim>\<open>Button_Init\<close>. The argument \<open>button\<close> is the record the pointer refers to, \<open>None\<close>
  for a null pointer, and the result carries the record as the call leaves it; \<open>now\<close> is
  what \<^verbatim>\<open>tick_fn()\<close> returns. Fields the compound literal does not name are zero.
\<close>

definition Button_Init ::
  "button_t option \<Rightarrow> u32 \<Rightarrow> button_active_level_t \<Rightarrow> ptr \<Rightarrow> ptr \<Rightarrow> u32
     \<Rightarrow> button_error_t \<times> button_t option" where
  "Button_Init button gpio level read_fn tick_fn now =
     (if button = None \<or> read_fn = NULL \<or> tick_fn = NULL
         \<or> active_level_value level \<ge> active_level_value BUTTON_ACTIVE_MAX
      then (BUTTON_ERR_INVALID_ARG, button)
      else (BUTTON_OK, Some \<lparr>
        last_change_tick = now,
        press_start_tick = now,
        last_hold_tick = now,
        gpio_num = gpio,
        active_level = level,
        last_state = STATE_IDLE,
        last_event = BUTTON_EVENT_NONE,
        is_long_pressed_triggered = False,
        context_ptr = NULL,
        callback = NULL,
        read_pin_func = read_fn,
        get_tick_func = tick_fn,
        stages = \<lparr>configs = NULL, latches = NULL, count = 0\<rparr>\<rparr>))"

text \<open>
  \<^verbatim>\<open>Button_ConfigStages\<close> reads the caller's configuration array through \<open>cfgs\<close>; the
  world is returned as the call leaves it.
\<close>

definition Button_ConfigStages ::
  "button_t option \<Rightarrow> ptr \<Rightarrow> ptr \<Rightarrow> u8 \<Rightarrow> world
     \<Rightarrow> button_error_t \<times> button_t option \<times> world" where
  "Button_ConfigStages button cfgs lats cnt w =
     (case button of
        None \<Rightarrow> (BUTTON_ERR_INVALID_ARG, None, w)
      | Some b \<Rightarrow>
          if cfgs = NULL \<or> lats = NULL \<or> cnt = 0 then (BUTTON_ERR_INVALID_ARG, Some b, w)
          else if \<not> validate_stages (stage_mem w) cfgs cnt
          then (BUTTON_ERR_INVALID_STAGES, Some b, w)
          else (BUTTON_OK,
                Some (b\<lparr>stages := \<lparr>configs = cfgs, latches = lats, count = cnt\<rparr>\<rparr>), w))"

definition handle_state_idle :: "button_t \<Rightarrow> bool \<Rightarrow> u32 \<Rightarrow> button_t" where
  "handle_state_idle button is_pressed current_tick =
     (if is_pressed
      then button\<lparr>last_state := STATE_DEBOUNCE, last_change_tick := current_tick\<rparr>
      else button)"

definition handle_state_debounce ::
  "button_t \<Rightarrow> bool \<Rightarrow> u32 \<Rightarrow> world \<Rightarrow> button_t \<times> world" where
  "handle_state_debounce button is_pressed current_tick w =
     (let diff = current_tick - last_change_tick button in
      if diff \<ge> BUTTON_DEBOUNCE_TICKS
      then (if is_pressed
            then (let button1 = button\<lparr>last_state := STATE_PRESSED,
                                       last_change_tick := current_tick\<rparr>
                  in (button1, dispatch button1 BUTTON_EVENT_PRESSED w))
            else (button\<lparr>last_state := STATE_IDLE\<rparr>, w))
      else (button, w))"

definition handle_state_pressed ::
  "button_t \<Rightarrow> bool \<Rightarrow> u32 \<Rightarrow> world \<Rightarrow> button_t \<times> world" where
  "handle_state_pressed button is_pressed current_tick w =
     (let diff = current_tick - last_change_tick button in
      if \<not> is_pressed
      then (let button1 = button\<lparr>last_state := STATE_IDLE\<rparr>
            in (button1, dispatch button1 BUTTON_EVENT_RELEASED w))
      else if diff \<ge> BUTTON_LONG_PRESS_TICKS
      then (let button1 = button\<lparr>last_state := STATE_LONG_PRESSED,
                                 last_change_tick := current_tick,
                                 press_start_tick := current_tick,
                                 last_hold_tick := current_tick\<rparr>
            in (button1, dispatch button1 BUTTON_EVENT_LONG_PRESSED w))
      else (button, w))"

text \<open>
  The latch-clearing loop of \<^verbatim>\<open>handle_state_long\<close>, from counter value \<open>i\<close> on:
  \<^verbatim>\<open>for (uint8_t i = 0; i < button->stages.count; i++) button->stages.latches[i] = false;\<close>
\<close>

function clear_latches :: "button_t \<Rightarrow> u8 \<Rightarrow> world \<Rightarrow> world" where
  "clear_latches button i w =
     (if i < count (stages button)
      then clear_latches button (i + 1)
             (w\<lparr>latch_mem := (latch_mem w)(latches (stages button) + unat i := False)\<rparr>)
      else w)"
  by pat_completeness auto
termination
proof (relation "measure (\<lambda>(button, i, w). unat (count (stages button)) - unat i)", goal_cases)
  case 1
  show ?case by simp
next
  case (2 button i w)
  from \<open>i < count (stages button)\<close> have lt: "unat i < unat (count (stages button))"
    by (simp add: word_less_nat_alt)
  moreover have "unat (count (stages button)) < 256"
    using unsigned_less [of "count (stages button)"] by simp
  ultimately have "unat (i + 1) = Suc (unat i)"
    by (simp add: unat_word_ariths)
  with lt show ?case by simp
qed

text \<open>
  The stage scan of \<^verbatim>\<open>handle_state_long\<close>, from counter value \<open>i\<close> on: a stage whose
  threshold is reached and whose latch is unset gets its latch set and its event
  dispatched.
\<close>

function stage_scan :: "button_t \<Rightarrow> u32 \<Rightarrow> u8 \<Rightarrow> world \<Rightarrow> world" where
  "stage_scan button total_pressed_time i w =
     (if i < count (stages button)
      then stage_scan button total_pressed_time (i + 1)
             (if total_pressed_time \<ge> threshold (stage_mem w (configs (stages button) + unat i))
                 \<and> \<not> latch_mem w (latches (stages button) + unat i)
              then dispatch button
                     (event (stage_mem w (configs (stages button) + unat i)))
                     (w\<lparr>latch_mem := (latch_mem w)(latches (stages button) + unat i := True)\<rparr>)
              else w)
      else w)"
  by pat_completeness auto
termination
proof (relation "measure (\<lambda>(button, total, i, w). unat (count (stages button)) - unat i)",
    goal_cases)
  case 1
  show ?case by simp
next
  case (2 button total i w)
  from \<open>i < count (stages button)\<close> have lt: "unat i < unat (count (stages button))"
    by (simp add: word_less_nat_alt)
  moreover have "unat (count (stages button)) < 256"
    using unsigned_less [of "count (stages button)"] by simp
  ultimately have "unat (i + 1) = Suc (unat i)"
    by (simp add: unat_word_ariths)
  with lt show ?case by simp
qed

definition handle_state_long ::
  "button_t \<Rightarrow> bool \<Rightarrow> u32 \<Rightarrow> world \<Rightarrow> button_t \<times> world" where
  "handle_state_long button is_pressed current_tick w =
     (if \<not> is_pressed
      then (let button1 = button\<lparr>last_state := STATE_IDLE\<rparr>;
                w1 = (if latches (stages button1) \<noteq> NULL
                      then clear_latches button1 0 w else w)
            in (button1, dispatch button1 BUTTON_EVENT_RELEASED w1))
      else (let total_pressed_time = current_tick - press_start_tick button;
                w1 = (if configs (stages button) \<noteq> NULL \<and> latches (stages button) \<noteq> NULL
                      then stage_scan button total_pressed_time 0 w else w)
            in if total_pressed_time \<ge> BUTTON_LONG_PRESS_TICKS
               then (if current_tick - last_hold_tick button \<ge> BUTTON_HOLD_TICKS
                     then (let button1 = button\<lparr>last_hold_tick := current_tick\<rparr>
                           in (button1, dispatch button1 BUTTON_EVENT_HOLD w1))
                     else (button, w1))
               else (button, w1)))"

text \<open>
  \<^verbatim>\<open>Button_Update\<close>, the poll. \<open>pin_level\<close> is what \<^verbatim>\<open>read_pin_func(gpio_num)\<close> returns
  and \<open>tick\<close> what \<^verbatim>\<open>get_tick_func()\<close> returns; both are called only once the checks
  have passed.
\<close>

definition Button_Update ::
  "button_t option \<Rightarrow> bool \<Rightarrow> u32 \<Rightarrow> world \<Rightarrow> button_error_t \<times> button_t option \<times> world" where
  "Button_Update button pin_level tick w =
     (case button of
        None \<Rightarrow> (BUTTON_ERR_INVALID_ARG, None, w)
      | Some b \<Rightarrow>
          if read_pin_func b = NULL \<or> get_tick_func b = NULL
          then (BUTTON_ERR_INVALID_ARG, Some b, w)
          else (let pin_state = pin_level;
                    is_pressed = (if active_level b = BUTTON_ACTIVE_LOW
                                  then pin_state = False else pin_state \<noteq> False);
                    current_tick = tick;
                    r = (case last_state b of
                           STATE_IDLE \<Rightarrow> (handle_state_idle b is_pressed current_tick, w)
                         | STATE_DEBOUNCE \<Rightarrow> handle_state_debounce b is_pressed current_tick w
                         | STATE_PRESSED \<Rightarrow> handle_state_pressed b is_pressed current_tick w
                         | STATE_LONG_PRESSED \<Rightarrow> handle_state_long b is_pressed current_tick w
                         | STATE_OUT_OF_RANGE \<Rightarrow> (b\<lparr>last_state := STATE_IDLE\<rparr>, w))
                in (BUTTON_OK, Some (fst r), snd r)))"

text \<open>\<^verbatim>\<open>*button = (button_t){0}\<close>: every field zero, every pointer null.\<close>

definition Button_Deinit :: "button_t option \<Rightarrow> button_error_t \<times> button_t option" where
  "Button_Deinit button =
     (case button of
        None \<Rightarrow> (BUTTON_ERR_INVALID_ARG, None)
      | Some b \<Rightarrow> (BUTTON_OK, Some \<lparr>
          last_change_tick = 0,
          press_start_tick = 0,
          last_hold_tick = 0,
          gpio_num = 0,
          active_level = BUTTON_ACTIVE_LOW,
          last_state = STATE_IDLE,
          last_event = BUTTON_EVENT_NONE,
          is_long_pressed_triggered = False,
          context_ptr = NULL,
          callback = NULL,
          read_pin_func = NULL,
          get_tick_func = NULL,
          stages = \<lparr>configs = NULL, latches = NULL, count = 0\<rparr>\<rparr>))"

definition Button_RegisterHandler ::
  "button_t option \<Rightarrow> ptr \<Rightarrow> ptr \<Rightarrow> button_error_t \<times> button_t option" where
  "Button_RegisterHandler button cb ctx =
     (case button of
        None \<Rightarrow> (BUTTON_ERR_INVALID_ARG, None)
      | Some b \<Rightarrow> (BUTTON_OK, Some (b\<lparr>callback := cb, context_ptr := ctx\<rparr>)))"

definition Button_UnregisterHandler :: "button_t option \<Rightarrow> button_error_t \<times> button_t option" where
  "Button_UnregisterHandler button =
     (case button of
        None \<Rightarrow> (BUTTON_ERR_INVALID_ARG, None)
      | Some b \<Rightarrow> (BUTTON_OK, Some (b\<lparr>callback := NULL, context_ptr := NULL\<rparr>)))"

section \<open>Polling sequences\<close>

text \<open>
  A sample is what one poll reads from its environment: the raw pin level and the tick.
  The system is the button record together with the world around it.
\<close>

type_synonym sample = "bool \<times> u32"
type_synonym system = "button_t \<times> world"

text \<open>The polarity mapping \<^verbatim>\<open>Button_Update\<close> applies to the raw level.\<close>

definition is_pressed :: "button_t \<Rightarrow> bool \<Rightarrow> bool" where
  "is_pressed b pin_state =
     (if active_level b = BUTTON_ACTIVE_LOW then pin_state = False else pin_state \<noteq> False)"

text \<open>One call of \<^verbatim>\<open>Button_Update\<close> on the record, and a sequence of such calls.\<close>

definition poll :: "system \<Rightarrow> sample \<Rightarrow> system" where
  "poll s x =
     (case Button_Update (Some (fst s)) (fst x) (snd x) (snd s) of
        (e, button, w) \<Rightarrow> (case button of Some b \<Rightarrow> (b, w) | None \<Rightarrow> (fst s, w)))"

fun polls :: "system \<Rightarrow> sample list \<Rightarrow> system" where
  "polls s [] = s"
| "polls s (x # xs) = polls (poll s x) xs"

section \<open>The stage scan and the dispatches in the words of the specification\<close>

text \<open>\<^verbatim>\<open>button->stages.configs[k]\<close> and \<^verbatim>\<open>button->stages.latches[k]\<close>.\<close>

definition stage_cfg :: "button_t \<Rightarrow> world \<Rightarrow> nat \<Rightarrow> button_stage_config_t" where
  "stage_cfg b w k = stage_mem w (configs (stages b) + k)"

definition stage_latch :: "button_t \<Rightarrow> world \<Rightarrow> nat \<Rightarrow> bool" where
  "stage_latch b w k = latch_mem w (latches (stages b) + k)"

text \<open>
  Specification: a stage is due when its latch is unset and the total hold time has
  reached its threshold; the stages a scan fires are the due ones, in ascending index
  order.
\<close>

definition stage_due :: "button_t \<Rightarrow> world \<Rightarrow> u32 \<Rightarrow> nat \<Rightarrow> bool" where
  "stage_due b w tot k = (threshold (stage_cfg b w k) \<le> tot \<and> \<not> stage_latch b w k)"

definition due_stages :: "button_t \<Rightarrow> world \<Rightarrow> u32 \<Rightarrow> nat list" where
  "due_stages b w tot =
     (if configs (stages b) \<noteq> NULL \<and> latches (stages b) \<noteq> NULL
      then filter (stage_due b w tot) [0..<unat (count (stages b))]
      else [])"

text \<open>
  Specification: dispatching a list of events in order delivers one call per event to
  the registered callback, and nothing when no callback is registered.
\<close>

definition calls_of :: "button_t \<Rightarrow> button_event_t list \<Rightarrow> callback_call list" where
  "calls_of b evs =
     (if callback b \<noteq> NULL then map (\<lambda>ev. (callback b, ev, context_ptr b)) evs else [])"

text \<open>The condition of the hold-repeat scan at tick \<open>t\<close>.\<close>

definition hold_due :: "button_t \<Rightarrow> u32 \<Rightarrow> bool" where
  "hold_due b t =
     (t - press_start_tick b \<ge> BUTTON_LONG_PRESS_TICKS
      \<and> t - last_hold_tick b \<ge> BUTTON_HOLD_TICKS)"

text \<open>
  The stages fired along a polling sequence, poll after poll: a poll fires stages only
  in state \<open>LongPressed\<close> with the button pressed, and then the due ones.
\<close>

fun stage_firings :: "system \<Rightarrow> sample list \<Rightarrow> nat list" where
  "stage_firings s [] = []"
| "stage_firings s (x # xs) =
     (if last_state (fst s) = STATE_LONG_PRESSED \<and> is_pressed (fst s) (fst x)
      then due_stages (fst s) (snd s) (snd x - press_start_tick (fst s))
      else [])
     @ stage_firings (poll s x) xs"

text \<open>
  Specification: the events one poll dispatches, by the transition table. Debounce
  dispatches \<open>Pressed\<close> when the debounce time has elapsed with the button pressed;
  Pressed dispatches \<open>Released\<close> on release and \<open>LongPressed\<close> once the long-press time
  has elapsed; LongPressed dispatches \<open>Released\<close> on release and otherwise the events of
  the due stages followed by \<open>Hold\<close> when the hold-repeat scan fires. A poll on a record
  without its pin-read or tick-read function dispatches nothing.
\<close>

definition stage_events :: "button_t \<Rightarrow> world \<Rightarrow> nat list \<Rightarrow> button_event_t list" where
  "stage_events b w ks = map (\<lambda>k. event (stage_cfg b w k)) ks"

definition poll_events :: "system \<Rightarrow> sample \<Rightarrow> button_event_t list" where
  "poll_events s x =
     (let b = fst s; w = snd s; t = snd x; pressed = is_pressed b (fst x) in
      if read_pin_func b = NULL \<or> get_tick_func b = NULL then []
      else case last_state b of
        STATE_IDLE \<Rightarrow> []
      | STATE_DEBOUNCE \<Rightarrow>
          if t - last_change_tick b \<ge> BUTTON_DEBOUNCE_TICKS \<and> pressed
          then [BUTTON_EVENT_PRESSED] else []
      | STATE_PRESSED \<Rightarrow>
          if \<not> pressed then [BUTTON_EVENT_RELEASED]
          else if t - last_change_tick b \<ge> BUTTON_LONG_PRESS_TICKS
          then [BUTTON_EVENT_LONG_PRESSED] else []
      | STATE_LONG_PRESSED \<Rightarrow>
          if \<not> pressed then [BUTTON_EVENT_RELEASED]
          else stage_events b w (due_stages b w (t - press_start_tick b))
               @ (if hold_due b t then [BUTTON_EVENT_HOLD] else [])
      | STATE_OUT_OF_RANGE \<Rightarrow> [])"

fun run_events :: "system \<Rightarrow> sample list \<Rightarrow> button_event_t list" where
  "run_events s [] = []"
| "run_events s (x # xs) = poll_events s x @ run_events (poll s x) xs"

text \<open>The calls delivered between an earlier world and a later one.\<close>

definition new_calls :: "world \<Rightarrow> world \<Rightarrow> callback_call list" where
  "new_calls w w' = drop (length (delivered w)) (delivered w')"

text \<open>The events of a list of calls.\<close>

definition events_of :: "callback_call list \<Rightarrow> button_event_t list" where
  "events_of cs = map (\<lambda>c. fst (snd c)) cs"

text \<open>
  Two conditions on a polling sequence: no poll of it is made in state \<open>LongPressed\<close>;
  and no poll of it is a release from \<open>LongPressed\<close> (made in that state with the button
  not pressed).
\<close>

fun no_long_poll :: "system \<Rightarrow> sample list \<Rightarrow> bool" where
  "no_long_poll s [] = True"
| "no_long_poll s (x # xs) =
     (last_state (fst s) \<noteq> STATE_LONG_PRESSED \<and> no_long_poll (poll s x) xs)"

fun no_long_release :: "system \<Rightarrow> sample list \<Rightarrow> bool" where
  "no_long_release s [] = True"
| "no_long_release s (x # xs) =
     (\<not> (last_state (fst s) = STATE_LONG_PRESSED \<and> \<not> is_pressed (fst s) (fst x))
      \<and> no_long_release (poll s x) xs)"

section \<open>The public interface as a whole\<close>

text \<open>
  A call of the public interface on an existing record, with its arguments and with what
  the environment returns during the call, and its effect on the record and the world.
  A sequence of calls is applied from left to right.
\<close>

datatype api_call =
  Init u32 button_active_level_t ptr ptr u32
  | ConfigStages ptr ptr u8
  | Update bool u32
  | RegisterHandler ptr ptr
  | UnregisterHandler
  | Deinit

definition record_after :: "button_t \<Rightarrow> button_t option \<Rightarrow> button_t" where
  "record_after b r = (case r of Some b' \<Rightarrow> b' | None \<Rightarrow> b)"

fun api_step :: "system \<Rightarrow> api_call \<Rightarrow> system" where
  "api_step s (Init gpio level read_fn tick_fn now) =
     (record_after (fst s) (snd (Button_Init (Some (fst s)) gpio level read_fn tick_fn now)),
      snd s)"
| "api_step s (ConfigStages cfgs lats cnt) =
     (record_after (fst s) (fst (snd (Button_ConfigStages (Some (fst s)) cfgs lats cnt (snd s)))),
      snd (snd (Button_ConfigStages (Some (fst s)) cfgs lats cnt (snd s))))"
| "api_step s (Update pin_level tick) = poll s (pin_level, tick)"
| "api_step s (RegisterHandler cb ctx) =
     (record_after (fst s) (snd (Button_RegisterHandler (Some (fst s)) cb ctx)), snd s)"
| "api_step s UnregisterHandler =
     (record_after (fst s) (snd (Button_UnregisterHandler (Some (fst s)))), snd s)"
| "api_step s Deinit = (record_after (fst s) (snd (Button_Deinit (Some (fst s)))), snd s)"

fun api_run :: "system \<Rightarrow> api_call list \<Rightarrow> system" where
  "api_run s [] = s"
| "api_run s (c # cs) = api_run (api_step s c) cs"

text \<open>
  The stage invariant: a record with a nonzero stage count has both arrays attached, a
  nonzero first threshold, and thresholds strictly increasing by index.
\<close>

definition stages_ok :: "button_t \<Rightarrow> world \<Rightarrow> bool" where
  "stages_ok b w =
     (count (stages b) = 0
      \<or> (configs (stages b) \<noteq> NULL \<and> latches (stages b) \<noteq> NULL
         \<and> threshold (stage_cfg b w 0) \<noteq> 0
         \<and> sorted_wrt (<) (map (\<lambda>k. threshold (stage_cfg b w k))
               [0..<unat (count (stages b))])))"

section \<open>Concrete configurations\<close>

text \<open>
  A memory with three two-stage configuration arrays: at cell 10 the thresholds 100, 200
  (valid), at cell 20 the thresholds 100, 100 and at cell 30 the thresholds 0, 200 (both
  invalid); and three one-stage arrays whose stage carries an event the state machine
  dispatches itself: \<open>Hold\<close> at cell 50, \<open>Pressed\<close> at cell 60 and \<open>Released\<close> at
  cell 70. All latches are unset and no call has been delivered.
\<close>

definition demo_stage_mem :: "ptr \<Rightarrow> button_stage_config_t" where
  "demo_stage_mem a =
     (if a = 10 then \<lparr>threshold = 100, event = BUTTON_EVENT_LONG_PRESSED\<rparr>
      else if a = 11 then \<lparr>threshold = 200, event = BUTTON_EVENT_SUPER_LONG_PRESSED\<rparr>
      else if a = 20 then \<lparr>threshold = 100, event = BUTTON_EVENT_SUPER_LONG_PRESSED\<rparr>
      else if a = 21 then \<lparr>threshold = 100, event = BUTTON_EVENT_SUPER_LONG_PRESSED\<rparr>
      else if a = 31 then \<lparr>threshold = 200, event = BUTTON_EVENT_SUPER_LONG_PRESSED\<rparr>
      else if a = 50 then \<lparr>threshold = 1020, event = BUTTON_EVENT_HOLD\<rparr>
      else if a = 60 then \<lparr>threshold = 100, event = BUTTON_EVENT_PRESSED\<rparr>
      else if a = 70 then \<lparr>threshold = 100, event = BUTTON_EVENT_RELEASED\<rparr>
      else \<lparr>threshold = 0, event = BUTTON_EVENT_NONE\<rparr>)"

definition demo_world :: world where
  "demo_world = \<lparr>stage_mem = demo_stage_mem, latch_mem = (\<lambda>a. False), delivered = []\<rparr>"

text \<open>
  An active-low button as \<^verbatim>\<open>Button_Init\<close> leaves it at tick 0, with its pin-read and
  tick-read functions at addresses 1 and 2.
\<close>

definition demo_button :: button_t where
  "demo_button = \<lparr>
     last_change_tick = 0,
     press_start_tick = 0,
     last_hold_tick = 0,
     gpio_num = 4,
     active_level = BUTTON_ACTIVE_LOW,
     last_state = STATE_IDLE,
     last_event = BUTTON_EVENT_NONE,
     is_long_pressed_triggered = False,
     context_ptr = NULL,
     callback = NULL,
     read_pin_func = 1,
     get_tick_func = 2,
     stages = \<lparr>configs = NULL, latches = NULL, count = 0\<rparr>\<rparr>"

text \<open>
  The same button with a callback at address 3 (context 7) and the valid two-stage
  configuration attached, its latches at cells 40 and 41.
\<close>

definition demo_staged_button :: button_t where
  "demo_staged_button =
     demo_button\<lparr>callback := 3, context_ptr := 7,
                 stages := \<lparr>configs = 10, latches = 40, count = 2\<rparr>\<rparr>"

text \<open>
  The button with the callback registered and no stages, and with each of the one-stage
  configurations attached (the latch at cell 40).
\<close>

definition demo_registered_button :: button_t where
  "demo_registered_button = demo_button\<lparr>callback := 3, context_ptr := 7\<rparr>"

definition hold_stage_button :: button_t where
  "hold_stage_button =
     demo_registered_button\<lparr>stages := \<lparr>configs = 50, latches = 40, count = 1\<rparr>\<rparr>"

definition pressed_stage_button :: button_t where
  "pressed_stage_button =
     demo_registered_button\<lparr>stages := \<lparr>configs = 60, latches = 40, count = 1\<rparr>\<rparr>"

definition released_stage_button :: button_t where
  "released_stage_button =
     demo_registered_button\<lparr>stages := \<lparr>configs = 70, latches = 40, count = 1\<rparr>\<rparr>"

text \<open>
  The two-stage button in state \<open>Pressed\<close>, the press validated at tick 0, and in state
  \<open>LongPressed\<close>, the long press having started at tick 0.
\<close>

definition demo_pressed_button :: button_t where
  "demo_pressed_button = demo_staged_button\<lparr>last_state := STATE_PRESSED\<rparr>"


definition demo_long_button :: button_t where
  "demo_long_button = demo_staged_button\<lparr>last_state := STATE_LONG_PRESSED\<rparr>"

text \<open>The memory with both latches of the two-stage button already set.\<close>

definition demo_latched_world :: world where
  "demo_latched_world = demo_world\<lparr>latch_mem := (\<lambda>a. a = 40 \<or> a = 41)\<rparr>"

text \<open>The memory in which the latch of stage 1 is set before any configuration is attached.\<close>

definition demo_preset_world :: world where
  "demo_preset_world = demo_world\<lparr>latch_mem := (\<lambda>a. a = 41)\<rparr>"

text \<open>
  The two-stage button in state \<open>LongPressed\<close> with ticks recorded shortly before the
  32-bit counter wraps:
  the last change 20 ticks, the long-press start 1000 ticks and the last hold 30 ticks
  before the counter reaches \<open>2 ^ 32\<close>.
\<close>

definition wrap_button :: button_t where
  "wrap_button =
     demo_long_button\<lparr>last_change_tick := 4294967276, press_start_tick := 4294966296,
                       last_hold_tick := 4294967266\<rparr>"

declare clear_latches.simps [simp del]
declare stage_scan.simps [simp del]
declare validate_stages_from.simps [simp del]

lemma u8_succ: "i < (cnt :: u8) \<Longrightarrow> unat (i + 1) = Suc (unat i)"
proof -
  assume "i < cnt"
  then have "unat i < unat cnt"
    by (simp add: word_less_nat_alt)
  moreover have "unat cnt < 256"
    using unsigned_less [of cnt] by simp
  ultimately show ?thesis
    by (simp add: unat_word_ariths)
qed

lemma ex_from_split:
  "(\<exists>k. (i::nat) \<le> k \<and> P k) \<longleftrightarrow> P i \<or> (\<exists>k. Suc i \<le> k \<and> P k)"
proof -
  have "i \<le> k \<longleftrightarrow> k = i \<or> Suc i \<le> k" for k
    by arith
  then show ?thesis
    by (simp only:) blast
qed

lemma all_from_split:
  "(i::nat) < n \<Longrightarrow>
   (\<forall>k. i \<le> k \<and> k < n \<longrightarrow> P k) \<longleftrightarrow> P i \<and> (\<forall>k. Suc i \<le> k \<and> k < n \<longrightarrow> P k)"
proof -
  assume lt: "i < n"
  have "i \<le> k \<longleftrightarrow> k = i \<or> Suc i \<le> k" for k
    by arith
  with lt show ?thesis
    by (simp only:) blast
qed

subsection \<open>Dispatch\<close>

lemma dispatch_frame [simp]:
  "stage_mem (dispatch b ev w) = stage_mem w" "latch_mem (dispatch b ev w) = latch_mem w"
  by (simp_all add: dispatch_def)

lemma delivered_dispatch:
  "delivered (dispatch b ev w) = delivered w @ calls_of b [ev]"
  by (simp add: dispatch_def calls_of_def)

lemma calls_of_append: "calls_of b (xs @ ys) = calls_of b xs @ calls_of b ys"
  by (simp add: calls_of_def)

lemma calls_of_Nil [simp]: "calls_of b [] = []"
  by (simp add: calls_of_def)

lemma calls_of_fields:
  "callback b' = callback b \<Longrightarrow> context_ptr b' = context_ptr b \<Longrightarrow> calls_of b' = calls_of b"
  by (simp add: calls_of_def fun_eq_iff)

lemma stage_events_append [simp]:
  "stage_events b w (ks @ ks') = stage_events b w ks @ stage_events b w ks'"
  by (simp add: stage_events_def)

lemma stage_events_Nil [simp]: "stage_events b w [] = []"
  by (simp add: stage_events_def)

lemma stage_events_fields:
  "stages b' = stages b \<Longrightarrow> stage_mem w' = stage_mem w \<Longrightarrow> stage_events b' w' = stage_events b w"
  by (simp add: stage_events_def stage_cfg_def fun_eq_iff)

subsection \<open>The concrete memory\<close>

lemma demo_stage_mem_simps [simp]:
  "threshold (demo_stage_mem 10) = 100" "threshold (demo_stage_mem 11) = 200"
  "threshold (demo_stage_mem 20) = 100" "threshold (demo_stage_mem 21) = 100"
  "threshold (demo_stage_mem 30) = 0" "threshold (demo_stage_mem 31) = 200"
  "event (demo_stage_mem 10) = BUTTON_EVENT_LONG_PRESSED"
  "event (demo_stage_mem 11) = BUTTON_EVENT_SUPER_LONG_PRESSED"
  "demo_stage_mem 50 = \<lparr>threshold = 1020, event = BUTTON_EVENT_HOLD\<rparr>"
  "demo_stage_mem 60 = \<lparr>threshold = 100, event = BUTTON_EVENT_PRESSED\<rparr>"
  "demo_stage_mem 70 = \<lparr>threshold = 100, event = BUTTON_EVENT_RELEASED\<rparr>"
  by (simp_all add: demo_stage_mem_def)

lemma upt_two: "[0..<2] = [0, Suc 0]"
  by (simp add: numeral_2_eq_2)

lemmas demo_defs = demo_world_def demo_latched_world_def demo_preset_world_def
  wrap_button_def demo_long_button_def
  demo_pressed_button_def
  demo_staged_button_def demo_button_def
  demo_registered_button_def hold_stage_button_def pressed_stage_button_def
  released_stage_button_def

lemmas stage_defs = due_stages_def stage_due_def stage_cfg_def stage_latch_def stage_events_def

lemmas tick_defs = BUTTON_DEBOUNCE_TICKS_def BUTTON_LONG_PRESS_TICKS_def BUTTON_HOLD_TICKS_def
  hold_due_def

subsection \<open>The latch-clearing loop\<close>

lemma clear_latches_frame:
  "stage_mem (clear_latches b i w) = stage_mem w \<and> delivered (clear_latches b i w) = delivered w"
proof (induction b i w rule: clear_latches.induct)
  case (1 button i w)
  show ?case
  proof (cases "i < count (stages button)")
    case True
    with 1 show ?thesis by (subst (1 2) clear_latches.simps) simp
  next
    case False
    then show ?thesis by (subst (1 2) clear_latches.simps) simp
  qed
qed

lemma clear_latches_latch_mem:
  "latch_mem (clear_latches b i w) a =
     (if latches (stages b) + unat i \<le> a \<and> a < latches (stages b) + unat (count (stages b))
      then False else latch_mem w a)"
proof (induction b i w rule: clear_latches.induct)
  case (1 button i w)
  show ?case
  proof (cases "i < count (stages button)")
    case True
    then have lt: "unat i < unat (count (stages button))"
      by (simp add: word_less_nat_alt)
    from True have suc: "unat (i + 1) = Suc (unat i)"
      by (rule u8_succ)
    from True 1 lt suc show ?thesis
      by (subst clear_latches.simps) auto
  next
    case False
    then have "\<not> unat i < unat (count (stages button))"
      by (simp add: word_less_nat_alt)
    with False show ?thesis by (subst clear_latches.simps) auto
  qed
qed

lemma clear_latches_eq:
  "clear_latches b 0 w =
     w\<lparr>latch_mem := (\<lambda>a. if latches (stages b) \<le> a
                              \<and> a < latches (stages b) + unat (count (stages b))
                           then False else latch_mem w a)\<rparr>"
  by (rule world.equality) (simp_all add: clear_latches_frame clear_latches_latch_mem fun_eq_iff)

subsection \<open>The stage scan\<close>

lemma stage_scan_stage_mem [simp]: "stage_mem (stage_scan b tot i w) = stage_mem w"
proof (induction b tot i w rule: stage_scan.induct)
  case (1 button tot i w)
  show ?case
  proof (cases "i < count (stages button)")
    case True
    with 1 show ?thesis by (subst stage_scan.simps) simp
  next
    case False
    then show ?thesis by (subst stage_scan.simps) simp
  qed
qed

lemma stage_scan_latch_mem:
  "latch_mem (stage_scan b tot i w) a =
     (latch_mem w a \<or>
      (\<exists>k. unat i \<le> k \<and> k < unat (count (stages b)) \<and> a = latches (stages b) + k
           \<and> threshold (stage_cfg b w k) \<le> tot))"
proof (induction b tot i w rule: stage_scan.induct)
  case (1 button tot i w)
  let ?n = "unat (count (stages button))"
  let ?P = "\<lambda>k. k < ?n \<and> a = latches (stages button) + k \<and> threshold (stage_cfg button w k) \<le> tot"
  show ?case
  proof (cases "i < count (stages button)")
    case True
    then have lt: "unat i < ?n"
      by (simp add: word_less_nat_alt)
    from True have suc: "unat (i + 1) = Suc (unat i)"
      by (rule u8_succ)
    have split: "(\<exists>k. unat i \<le> k \<and> ?P k) \<longleftrightarrow> ?P (unat i) \<or> (\<exists>k. Suc (unat i) \<le> k \<and> ?P k)"
      by (rule ex_from_split)
    show ?thesis
    proof (cases "stage_due button w tot (unat i)")
      case due: True
      let ?w' = "dispatch button (event (stage_mem w (configs (stages button) + unat i)))
                     (w\<lparr>latch_mem := (latch_mem w)(latches (stages button) + unat i := True)\<rparr>)"
      have step: "stage_scan button tot i w = stage_scan button tot (i + 1) ?w'"
        using True due by (subst stage_scan.simps) (simp add: stage_due_def stage_cfg_def stage_latch_def)
      have ih: "latch_mem (stage_scan button tot (i + 1) ?w') a =
         (latch_mem ?w' a \<or> (\<exists>k. unat (i + 1) \<le> k \<and> k < ?n \<and> a = latches (stages button) + k
           \<and> threshold (stage_cfg button ?w' k) \<le> tot))"
        using 1 [OF True] due by (simp add: stage_due_def stage_cfg_def stage_latch_def)
      have cfg: "stage_cfg button ?w' = stage_cfg button w"
        by (simp add: stage_cfg_def fun_eq_iff)
      have "latch_mem ?w' a = (a = latches (stages button) + unat i \<or> latch_mem w a)"
        by simp
      moreover have "?P (unat i) \<longleftrightarrow> a = latches (stages button) + unat i"
        using due lt by (simp add: stage_due_def)
      ultimately show ?thesis
        unfolding step ih cfg suc split by blast
    next
      case notdue: False
      have step: "stage_scan button tot i w = stage_scan button tot (i + 1) w"
        using True notdue by (subst stage_scan.simps) (auto simp: stage_due_def stage_cfg_def stage_latch_def)
      have ih: "latch_mem (stage_scan button tot (i + 1) w) a =
         (latch_mem w a \<or> (\<exists>k. unat (i + 1) \<le> k \<and> k < ?n \<and> a = latches (stages button) + k
           \<and> threshold (stage_cfg button w k) \<le> tot))"
        using 1 [OF True] notdue by (auto simp: stage_due_def stage_cfg_def stage_latch_def)
      have "?P (unat i) \<longrightarrow> latch_mem w a"
        using notdue by (auto simp: stage_due_def stage_latch_def)
      then show ?thesis
        unfolding step ih suc split by blast
    qed
  next
    case False
    then have "\<not> unat i < ?n"
      by (simp add: word_less_nat_alt)
    moreover have "stage_scan button tot i w = w"
      using False by (subst stage_scan.simps) simp
    ultimately show ?thesis by auto
  qed
qed

lemma stage_scan_delivered:
  "delivered (stage_scan b tot i w) =
     delivered w @
     calls_of b (stage_events b w
                   (filter (stage_due b w tot) [unat i..<unat (count (stages b))]))"
proof (induction b tot i w rule: stage_scan.induct)
  case (1 button tot i w)
  let ?n = "unat (count (stages button))"
  show ?case
  proof (cases "i < count (stages button)")
    case True
    then have lt: "unat i < ?n"
      by (simp add: word_less_nat_alt)
    from True have suc: "unat (i + 1) = Suc (unat i)"
      by (rule u8_succ)
    from lt have upt: "[unat i..<?n] = unat i # [Suc (unat i)..<?n]"
      by (rule upt_conv_Cons)
    show ?thesis
    proof (cases "stage_due button w tot (unat i)")
      case due: True
      let ?w' = "dispatch button (event (stage_mem w (configs (stages button) + unat i)))
                     (w\<lparr>latch_mem := (latch_mem w)(latches (stages button) + unat i := True)\<rparr>)"
      have step: "stage_scan button tot i w = stage_scan button tot (i + 1) ?w'"
        using True due by (subst stage_scan.simps) (simp add: stage_due_def stage_cfg_def stage_latch_def)
      have sel: "(if threshold (stage_mem w (configs (stages button) + unat i)) \<le> tot
                     \<and> \<not> latch_mem w (latches (stages button) + unat i)
                  then ?w' else w) = ?w'"
        using due by (simp add: stage_due_def stage_cfg_def stage_latch_def)
      have ih: "delivered (stage_scan button tot (i + 1) ?w') = delivered ?w' @
         calls_of button (stage_events button ?w'
            (filter (stage_due button ?w' tot) [unat (i + 1)..<?n]))"
        using 1 [OF True] unfolding sel .
      have cfg: "stage_events button ?w' = stage_events button w"
        by (simp add: stage_events_def stage_cfg_def fun_eq_iff)
      have later: "filter (stage_due button ?w' tot) [Suc (unat i)..<?n]
          = filter (stage_due button w tot) [Suc (unat i)..<?n]"
        by (rule filter_cong) (auto simp: stage_due_def stage_cfg_def stage_latch_def)
      have first: "delivered ?w' = delivered w @ calls_of button [event (stage_cfg button w (unat i))]"
        by (simp add: delivered_dispatch stage_cfg_def)
      show ?thesis
        unfolding step ih cfg suc later first upt using due
        by (simp add: calls_of_def stage_events_def)
    next
      case notdue: False
      have step: "stage_scan button tot i w = stage_scan button tot (i + 1) w"
        using True notdue by (subst stage_scan.simps) (auto simp: stage_due_def stage_cfg_def stage_latch_def)
      have sel: "(if threshold (stage_mem w (configs (stages button) + unat i)) \<le> tot
                     \<and> \<not> latch_mem w (latches (stages button) + unat i)
                  then dispatch button (event (stage_mem w (configs (stages button) + unat i)))
                     (w\<lparr>latch_mem := (latch_mem w)(latches (stages button) + unat i := True)\<rparr>)
                  else w) = w"
        using notdue by (auto simp: stage_due_def stage_cfg_def stage_latch_def)
      have ih: "delivered (stage_scan button tot (i + 1) w) = delivered w @
         calls_of button (stage_events button w
            (filter (stage_due button w tot) [unat (i + 1)..<?n]))"
        using 1 [OF True] unfolding sel .
      show ?thesis
        unfolding step ih suc upt using notdue by simp
    qed
  next
    case False
    then have "\<not> unat i < ?n"
      by (simp add: word_less_nat_alt)
    moreover have "stage_scan button tot i w = w"
      using False by (subst stage_scan.simps) simp
    ultimately show ?thesis by simp
  qed
qed

lemma stage_scan_eq:
  "stage_scan b tot 0 w =
     w\<lparr>latch_mem := (\<lambda>a. latch_mem w a \<or>
          (latches (stages b) \<le> a \<and> a < latches (stages b) + unat (count (stages b))
           \<and> threshold (stage_cfg b w (a - latches (stages b))) \<le> tot)),
       delivered := delivered w @
          calls_of b (stage_events b w
                        (filter (stage_due b w tot) [0..<unat (count (stages b))]))\<rparr>"
proof (rule world.equality)
  show "latch_mem (stage_scan b tot 0 w) =
      latch_mem (w\<lparr>latch_mem := (\<lambda>a. latch_mem w a \<or>
          (latches (stages b) \<le> a \<and> a < latches (stages b) + unat (count (stages b))
           \<and> threshold (stage_cfg b w (a - latches (stages b))) \<le> tot)),
       delivered := delivered w @
          calls_of b (stage_events b w
                        (filter (stage_due b w tot) [0..<unat (count (stages b))]))\<rparr>)"
  proof (rule ext)
    fix a
    have "(\<exists>k. k < unat (count (stages b)) \<and> a = latches (stages b) + k
              \<and> threshold (stage_cfg b w k) \<le> tot) \<longleftrightarrow>
          (latches (stages b) \<le> a \<and> a < latches (stages b) + unat (count (stages b))
           \<and> threshold (stage_cfg b w (a - latches (stages b))) \<le> tot)"
      by (auto intro: exI [of _ "a - latches (stages b)"])
    then show "latch_mem (stage_scan b tot 0 w) a =
      latch_mem (w\<lparr>latch_mem := (\<lambda>a. latch_mem w a \<or>
          (latches (stages b) \<le> a \<and> a < latches (stages b) + unat (count (stages b))
           \<and> threshold (stage_cfg b w (a - latches (stages b))) \<le> tot)),
       delivered := delivered w @
          calls_of b (stage_events b w
                        (filter (stage_due b w tot) [0..<unat (count (stages b))]))\<rparr>) a"
      by (simp add: stage_scan_latch_mem)
  qed
qed (simp_all add: stage_scan_delivered)

subsection \<open>Stage validation\<close>

lemma validate_stages_from_iff:
  "0 < unat i \<Longrightarrow>
   validate_stages_from mem cfg cnt i \<longleftrightarrow>
     (\<forall>k. unat i \<le> k \<and> k < unat cnt \<longrightarrow>
          threshold (mem (cfg + (k - 1))) < threshold (mem (cfg + k)))"
proof (induction mem cfg cnt i rule: validate_stages_from.induct)
  case (1 mem cfg cnt i)
  let ?ok = "\<lambda>k. threshold (mem (cfg + (k - 1))) < threshold (mem (cfg + k))"
  from \<open>0 < unat i\<close> have "i \<noteq> 0"
    by auto
  then have pred: "unat (i - 1) = unat i - 1"
    by (rule unat_minus_one)
  show ?case
  proof (cases "i < cnt")
    case True
    then have lt: "unat i < unat cnt"
      by (simp add: word_less_nat_alt)
    from True have suc: "unat (i + 1) = Suc (unat i)"
      by (rule u8_succ)
    have split: "(\<forall>k. unat i \<le> k \<and> k < unat cnt \<longrightarrow> ?ok k) \<longleftrightarrow>
        ?ok (unat i) \<and> (\<forall>k. Suc (unat i) \<le> k \<and> k < unat cnt \<longrightarrow> ?ok k)"
      by (rule all_from_split [OF lt])
    show ?thesis
    proof (cases "threshold (mem (cfg + unat i)) \<le> threshold (mem (cfg + unat (i - 1)))")
      case bad: True
      have "\<not> validate_stages_from mem cfg cnt i"
        using True bad by (subst validate_stages_from.simps) simp
      moreover from bad have "\<not> ?ok (unat i)"
        by (simp add: pred not_less)
      ultimately show ?thesis
        unfolding split by blast
    next
      case good: False
      have step: "validate_stages_from mem cfg cnt i = validate_stages_from mem cfg cnt (i + 1)"
        using True good by (subst validate_stages_from.simps) simp
      have ih: "validate_stages_from mem cfg cnt (i + 1) \<longleftrightarrow>
          (\<forall>k. unat (i + 1) \<le> k \<and> k < unat cnt \<longrightarrow> ?ok k)"
        using 1(1) [OF True good] by (simp add: suc)
      from good have "?ok (unat i)"
        by (simp add: pred not_le)
      then show ?thesis
        unfolding step ih suc split by blast
    qed
  next
    case False
    then have "\<not> unat i < unat cnt"
      by (simp add: word_less_nat_alt)
    moreover have "validate_stages_from mem cfg cnt i"
      using False by (subst validate_stages_from.simps) simp
    ultimately show ?thesis by auto
  qed
qed

lemma validate_stages_iff:
  "validate_stages mem cfg cnt \<longleftrightarrow>
     cfg \<noteq> NULL \<and> cnt \<noteq> 0 \<and> threshold (mem cfg) \<noteq> 0 \<and>
     (\<forall>k. 1 \<le> k \<and> k < unat cnt \<longrightarrow>
          threshold (mem (cfg + (k - 1))) < threshold (mem (cfg + k)))"
  using validate_stages_from_iff [of 1 mem cfg cnt]
  by (simp add: validate_stages_def)

lemma validate_stages_strict_mono:
  assumes "validate_stages mem cfg cnt" and "i < j" and "j < unat cnt"
  shows "threshold (mem (cfg + i)) < threshold (mem (cfg + j))"
  using assms(2,3)
proof (induction j)
  case 0
  then show ?case by simp
next
  case (Suc j)
  from assms(1) Suc.prems(2) have adj: "threshold (mem (cfg + j)) < threshold (mem (cfg + Suc j))"
    unfolding validate_stages_iff by (metis Suc_eq_plus1 add_diff_cancel_right' le_add2)
  show ?case
  proof (cases "i = j")
    case True
    with adj show ?thesis by simp
  next
    case False
    with Suc.prems have "i < j" "j < unat cnt" by simp_all
    then have "threshold (mem (cfg + i)) < threshold (mem (cfg + j))"
      by (rule Suc.IH)
    with adj show ?thesis by simp
  qed
qed

subsection \<open>One poll, state by state\<close>

lemma poll_unchecked:
  "read_pin_func b = NULL \<or> get_tick_func b = NULL \<Longrightarrow> poll (b, w) x = (b, w)"
  by (auto simp: poll_def Button_Update_def)

lemma poll_handlers:
  assumes "read_pin_func b \<noteq> NULL" and "get_tick_func b \<noteq> NULL"
  shows "poll (b, w) (pin, t) =
     (case last_state b of
        STATE_IDLE \<Rightarrow> (handle_state_idle b (is_pressed b pin) t, w)
      | STATE_DEBOUNCE \<Rightarrow> handle_state_debounce b (is_pressed b pin) t w
      | STATE_PRESSED \<Rightarrow> handle_state_pressed b (is_pressed b pin) t w
      | STATE_LONG_PRESSED \<Rightarrow> handle_state_long b (is_pressed b pin) t w
      | STATE_OUT_OF_RANGE \<Rightarrow> (b\<lparr>last_state := STATE_IDLE\<rparr>, w))"
  using assms
  by (cases "last_state b"; cases "active_level b = BUTTON_ACTIVE_LOW")
     (simp_all add: poll_def Button_Update_def is_pressed_def Let_def)

lemma debounce_eq:
  "handle_state_debounce b p t w =
     (if t - last_change_tick b < BUTTON_DEBOUNCE_TICKS then (b, w)
      else if p then (b\<lparr>last_state := STATE_PRESSED, last_change_tick := t\<rparr>,
                      w\<lparr>delivered := delivered w @ calls_of b [BUTTON_EVENT_PRESSED]\<rparr>)
      else (b\<lparr>last_state := STATE_IDLE\<rparr>, w))"
  by (simp add: handle_state_debounce_def Let_def dispatch_def calls_of_def not_less)

lemma pressed_eq:
  "handle_state_pressed b p t w =
     (if \<not> p then (b\<lparr>last_state := STATE_IDLE\<rparr>,
                     w\<lparr>delivered := delivered w @ calls_of b [BUTTON_EVENT_RELEASED]\<rparr>)
      else if t - last_change_tick b \<ge> BUTTON_LONG_PRESS_TICKS
      then (b\<lparr>last_state := STATE_LONG_PRESSED, last_change_tick := t,
               press_start_tick := t, last_hold_tick := t\<rparr>,
            w\<lparr>delivered := delivered w @ calls_of b [BUTTON_EVENT_LONG_PRESSED]\<rparr>)
      else (b, w))"
  by (simp add: handle_state_pressed_def Let_def dispatch_def calls_of_def)

lemma long_released_fst:
  "fst (handle_state_long b False t w) = b\<lparr>last_state := STATE_IDLE\<rparr>"
  by (simp add: handle_state_long_def Let_def)

lemma long_released_stage_mem:
  "stage_mem (snd (handle_state_long b False t w)) = stage_mem w"
  by (simp add: handle_state_long_def Let_def clear_latches_frame)

lemma long_released_delivered:
  "delivered (snd (handle_state_long b False t w)) =
     delivered w @ calls_of b [BUTTON_EVENT_RELEASED]"
  by (simp add: handle_state_long_def Let_def delivered_dispatch clear_latches_frame
      calls_of_def)

lemma long_released_latch_mem:
  "latch_mem (snd (handle_state_long b False t w)) a =
     (if latches (stages b) \<noteq> NULL \<and> latches (stages b) \<le> a
         \<and> a < latches (stages b) + unat (count (stages b))
      then False else latch_mem w a)"
  by (simp add: handle_state_long_def Let_def clear_latches_latch_mem)

lemma long_pressed_fst:
  "fst (handle_state_long b True t w) = (if hold_due b t then b\<lparr>last_hold_tick := t\<rparr> else b)"
  by (simp add: handle_state_long_def Let_def hold_due_def)

lemma long_pressed_stage_mem:
  "stage_mem (snd (handle_state_long b True t w)) = stage_mem w"
  by (simp add: handle_state_long_def Let_def)

lemma long_pressed_delivered:
  "delivered (snd (handle_state_long b True t w)) =
     delivered w @
     calls_of b (stage_events b w (due_stages b w (t - press_start_tick b))
                 @ (if hold_due b t then [BUTTON_EVENT_HOLD] else []))"
  by (simp add: handle_state_long_def Let_def hold_due_def due_stages_def delivered_dispatch
      stage_scan_delivered calls_of_append calls_of_def)

lemma long_pressed_latch_mem:
  "latch_mem (snd (handle_state_long b True t w)) a =
     (latch_mem w a \<or>
      (configs (stages b) \<noteq> NULL \<and> latches (stages b) \<noteq> NULL
       \<and> latches (stages b) \<le> a \<and> a < latches (stages b) + unat (count (stages b))
       \<and> threshold (stage_cfg b w (a - latches (stages b))) \<le> t - press_start_tick b))"
  by (simp add: handle_state_long_def Let_def stage_scan_eq)

lemma long_pressed_poll:
  assumes "last_state b = STATE_LONG_PRESSED"
    and "read_pin_func b \<noteq> NULL" and "get_tick_func b \<noteq> NULL"
    and "is_pressed b pin"
  shows "poll (b, w) (pin, t) = handle_state_long b True t w"
  using assms by (simp add: poll_handlers)

lemma long_pressed_state:
  "last_state (fst (handle_state_long b True t w)) = last_state b"
  "press_start_tick (fst (handle_state_long b True t w)) = press_start_tick b"
  by (simp_all add: long_pressed_fst)

lemma long_pressed_eq:
  "handle_state_long b True t w =
     (if hold_due b t then b\<lparr>last_hold_tick := t\<rparr> else b,
      w\<lparr>latch_mem := (\<lambda>a. latch_mem w a \<or>
            (configs (stages b) \<noteq> NULL \<and> latches (stages b) \<noteq> NULL
             \<and> latches (stages b) \<le> a \<and> a < latches (stages b) + unat (count (stages b))
             \<and> threshold (stage_cfg b w (a - latches (stages b))) \<le> t - press_start_tick b)),
        delivered := delivered w @
            calls_of b (stage_events b w (due_stages b w (t - press_start_tick b))
                        @ (if hold_due b t then [BUTTON_EVENT_HOLD] else []))\<rparr>)"
proof (rule prod_eqI)
  show "fst (handle_state_long b True t w) =
     fst (if hold_due b t then b\<lparr>last_hold_tick := t\<rparr> else b,
      w\<lparr>latch_mem := (\<lambda>a. latch_mem w a \<or>
            (configs (stages b) \<noteq> NULL \<and> latches (stages b) \<noteq> NULL
             \<and> latches (stages b) \<le> a \<and> a < latches (stages b) + unat (count (stages b))
             \<and> threshold (stage_cfg b w (a - latches (stages b))) \<le> t - press_start_tick b)),
        delivered := delivered w @
            calls_of b (stage_events b w (due_stages b w (t - press_start_tick b))
                        @ (if hold_due b t then [BUTTON_EVENT_HOLD] else []))\<rparr>)"
    by (simp add: long_pressed_fst)
  show "snd (handle_state_long b True t w) =
     snd (if hold_due b t then b\<lparr>last_hold_tick := t\<rparr> else b,
      w\<lparr>latch_mem := (\<lambda>a. latch_mem w a \<or>
            (configs (stages b) \<noteq> NULL \<and> latches (stages b) \<noteq> NULL
             \<and> latches (stages b) \<le> a \<and> a < latches (stages b) + unat (count (stages b))
             \<and> threshold (stage_cfg b w (a - latches (stages b))) \<le> t - press_start_tick b)),
        delivered := delivered w @
            calls_of b (stage_events b w (due_stages b w (t - press_start_tick b))
                        @ (if hold_due b t then [BUTTON_EVENT_HOLD] else []))\<rparr>)"
    by (rule world.equality)
       (simp_all add: long_pressed_stage_mem long_pressed_delivered long_pressed_latch_mem
         fun_eq_iff)
qed

lemma long_released_eq:
  "handle_state_long b False t w =
     (b\<lparr>last_state := STATE_IDLE\<rparr>,
      w\<lparr>latch_mem := (\<lambda>a. if latches (stages b) \<noteq> NULL \<and> latches (stages b) \<le> a
                              \<and> a < latches (stages b) + unat (count (stages b))
                           then False else latch_mem w a),
        delivered := delivered w @ calls_of b [BUTTON_EVENT_RELEASED]\<rparr>)"
proof (rule prod_eqI)
  show "fst (handle_state_long b False t w) =
     fst (b\<lparr>last_state := STATE_IDLE\<rparr>,
      w\<lparr>latch_mem := (\<lambda>a. if latches (stages b) \<noteq> NULL \<and> latches (stages b) \<le> a
                              \<and> a < latches (stages b) + unat (count (stages b))
                           then False else latch_mem w a),
        delivered := delivered w @ calls_of b [BUTTON_EVENT_RELEASED]\<rparr>)"
    by (simp add: long_released_fst)
  show "snd (handle_state_long b False t w) =
     snd (b\<lparr>last_state := STATE_IDLE\<rparr>,
      w\<lparr>latch_mem := (\<lambda>a. if latches (stages b) \<noteq> NULL \<and> latches (stages b) \<le> a
                              \<and> a < latches (stages b) + unat (count (stages b))
                           then False else latch_mem w a),
        delivered := delivered w @ calls_of b [BUTTON_EVENT_RELEASED]\<rparr>)"
    by (rule world.equality)
       (simp_all add: long_released_stage_mem long_released_delivered long_released_latch_mem
         fun_eq_iff)
qed

text \<open>Equations that evaluate a poll on a concrete record.\<close>

lemmas poll_eval = poll_handlers handle_state_idle_def debounce_eq pressed_eq long_pressed_eq
  long_released_eq is_pressed_def calls_of_def

subsection \<open>What no poll changes\<close>

lemma handler_fields:
  "stages (handle_state_idle b p t) = stages b"
  "callback (handle_state_idle b p t) = callback b"
  "context_ptr (handle_state_idle b p t) = context_ptr b"
  "read_pin_func (handle_state_idle b p t) = read_pin_func b"
  "get_tick_func (handle_state_idle b p t) = get_tick_func b"
  "active_level (handle_state_idle b p t) = active_level b"
  "stages (fst (handle_state_debounce b p t w)) = stages b"
  "callback (fst (handle_state_debounce b p t w)) = callback b"
  "context_ptr (fst (handle_state_debounce b p t w)) = context_ptr b"
  "read_pin_func (fst (handle_state_debounce b p t w)) = read_pin_func b"
  "get_tick_func (fst (handle_state_debounce b p t w)) = get_tick_func b"
  "active_level (fst (handle_state_debounce b p t w)) = active_level b"
  "stages (fst (handle_state_pressed b p t w)) = stages b"
  "callback (fst (handle_state_pressed b p t w)) = callback b"
  "context_ptr (fst (handle_state_pressed b p t w)) = context_ptr b"
  "read_pin_func (fst (handle_state_pressed b p t w)) = read_pin_func b"
  "get_tick_func (fst (handle_state_pressed b p t w)) = get_tick_func b"
  "active_level (fst (handle_state_pressed b p t w)) = active_level b"
  "stages (fst (handle_state_long b p t w)) = stages b"
  "callback (fst (handle_state_long b p t w)) = callback b"
  "context_ptr (fst (handle_state_long b p t w)) = context_ptr b"
  "read_pin_func (fst (handle_state_long b p t w)) = read_pin_func b"
  "get_tick_func (fst (handle_state_long b p t w)) = get_tick_func b"
  "active_level (fst (handle_state_long b p t w)) = active_level b"
  by (simp_all add: handle_state_idle_def debounce_eq pressed_eq handle_state_long_def Let_def)

lemma handler_stage_mem:
  "stage_mem (snd (handle_state_debounce b p t w)) = stage_mem w"
  "stage_mem (snd (handle_state_pressed b p t w)) = stage_mem w"
  "stage_mem (snd (handle_state_long b p t w)) = stage_mem w"
  by (simp_all add: debounce_eq pressed_eq handle_state_long_def Let_def clear_latches_frame)

lemma poll_fields_conj:
  "stages (fst (poll s x)) = stages (fst s) \<and>
   callback (fst (poll s x)) = callback (fst s) \<and>
   context_ptr (fst (poll s x)) = context_ptr (fst s) \<and>
   read_pin_func (fst (poll s x)) = read_pin_func (fst s) \<and>
   get_tick_func (fst (poll s x)) = get_tick_func (fst s) \<and>
   active_level (fst (poll s x)) = active_level (fst s) \<and>
   stage_mem (snd (poll s x)) = stage_mem (snd s)"
proof -
  obtain b w pin t where s: "s = (b, w)" and x: "x = (pin, t)"
    by (cases s, cases x) auto
  show ?thesis
  proof (cases "read_pin_func b = NULL \<or> get_tick_func b = NULL")
    case True
    then show ?thesis
      unfolding s by (simp add: poll_unchecked)
  next
    case False
    then show ?thesis
      unfolding s x
      by (cases "last_state b") (simp_all add: poll_handlers handler_fields handler_stage_mem)
  qed
qed

lemma poll_fields:
  "stages (fst (poll s x)) = stages (fst s)"
  "callback (fst (poll s x)) = callback (fst s)"
  "context_ptr (fst (poll s x)) = context_ptr (fst s)"
  "read_pin_func (fst (poll s x)) = read_pin_func (fst s)"
  "get_tick_func (fst (poll s x)) = get_tick_func (fst s)"
  "active_level (fst (poll s x)) = active_level (fst s)"
  "stage_mem (snd (poll s x)) = stage_mem (snd s)"
  using poll_fields_conj [of s x] by simp_all

lemma polls_fields:
  "stages (fst (polls s xs)) = stages (fst s)"
  "callback (fst (polls s xs)) = callback (fst s)"
  "context_ptr (fst (polls s xs)) = context_ptr (fst s)"
  "read_pin_func (fst (polls s xs)) = read_pin_func (fst s)"
  "get_tick_func (fst (polls s xs)) = get_tick_func (fst s)"
  "active_level (fst (polls s xs)) = active_level (fst s)"
  "stage_mem (snd (polls s xs)) = stage_mem (snd s)"
  by (induction xs arbitrary: s; simp add: poll_fields)+

lemma polls_append: "polls s (xs @ ys) = polls (polls s xs) ys"
  by (induction xs arbitrary: s) simp_all

lemma is_pressed_fields: "active_level b' = active_level b \<Longrightarrow> is_pressed b' = is_pressed b"
  by (simp add: is_pressed_def fun_eq_iff)

lemma stage_cfg_fields:
  "stages b' = stages b \<Longrightarrow> stage_mem w' = stage_mem w \<Longrightarrow> stage_cfg b' w' = stage_cfg b w"
  by (simp add: stage_cfg_def fun_eq_iff)

subsection \<open>Delivered calls only grow\<close>

lemma poll_delivered_prefix:
  "\<exists>cs. delivered (snd (poll s x)) = delivered (snd s) @ cs"
proof -
  obtain b w pin t where s: "s = (b, w)" and x: "x = (pin, t)"
    by (cases s, cases x) auto
  show ?thesis
  proof (cases "read_pin_func b = NULL \<or> get_tick_func b = NULL")
    case True
    then show ?thesis unfolding s by (simp add: poll_unchecked)
  next
    case False
    then show ?thesis
      unfolding s x
      by (cases "last_state b"; cases "is_pressed b pin")
         (simp_all add: poll_handlers debounce_eq pressed_eq long_pressed_delivered
           long_released_delivered)
  qed
qed

lemma polls_delivered_prefix:
  "\<exists>cs. delivered (snd (polls s xs)) = delivered (snd s) @ cs"
proof (induction xs arbitrary: s)
  case Nil
  show ?case by simp
next
  case (Cons x xs)
  from Cons.IH [of "poll s x"] poll_delivered_prefix [of s x] show ?case
    by auto
qed

lemma delivered_new_calls_poll:
  "delivered (snd (poll s x)) = delivered (snd s) @ new_calls (snd s) (snd (poll s x))"
  using poll_delivered_prefix [of s x] by (auto simp: new_calls_def)

lemma delivered_new_calls:
  "delivered (snd (polls s xs)) = delivered (snd s) @ new_calls (snd s) (snd (polls s xs))"
  using polls_delivered_prefix [of s xs] by (auto simp: new_calls_def)

lemma new_calls_Cons:
  "new_calls (snd s) (snd (polls s (x # xs))) =
     new_calls (snd s) (snd (poll s x)) @ new_calls (snd (poll s x)) (snd (polls (poll s x) xs))"
proof -
  have "delivered (snd (polls s (x # xs))) =
      (delivered (snd s) @ new_calls (snd s) (snd (poll s x)))
        @ new_calls (snd (poll s x)) (snd (polls (poll s x) xs))"
    using delivered_new_calls [of "poll s x" xs] delivered_new_calls_poll [of s x] by simp
  then show ?thesis
    by (simp add: new_calls_def [of "snd s" "snd (polls s (x # xs))"] del: polls.simps)
qed

subsection \<open>The events of a poll are the ones the transition table names\<close>

lemma new_calls_poll:
  "new_calls (snd s) (snd (poll s x)) = calls_of (fst s) (poll_events s x)"
proof -
  obtain b w pin t where s: "s = (b, w)" and x: "x = (pin, t)"
    by (cases s, cases x) auto
  show ?thesis
  proof (cases "read_pin_func b = NULL \<or> get_tick_func b = NULL")
    case True
    then show ?thesis
      unfolding s by (auto simp: poll_unchecked poll_events_def new_calls_def)
  next
    case False
    then have fns: "read_pin_func b \<noteq> NULL" "get_tick_func b \<noteq> NULL"
      by simp_all
    show ?thesis
    proof (cases "is_pressed b pin")
      case True
      with fns show ?thesis
        unfolding s x
        by (cases "last_state b")
           (auto simp: poll_handlers poll_events_def new_calls_def handle_state_idle_def
             debounce_eq pressed_eq long_pressed_delivered)
    next
      case False
      with fns show ?thesis
        unfolding s x
        by (cases "last_state b")
           (auto simp: poll_handlers poll_events_def new_calls_def handle_state_idle_def
             debounce_eq pressed_eq long_released_delivered)
    qed
  qed
qed

lemma calls_of_poll: "calls_of (fst (poll s x)) = calls_of (fst s)"
  by (rule calls_of_fields) (simp_all add: poll_fields)

lemma new_calls_polls:
  "new_calls (snd s) (snd (polls s xs)) = calls_of (fst s) (run_events s xs)"
proof (induction xs arbitrary: s)
  case Nil
  show ?case by (simp add: new_calls_def)
next
  case (Cons x xs)
  have "new_calls (snd s) (snd (polls s (x # xs))) =
      calls_of (fst s) (poll_events s x) @ calls_of (fst (poll s x)) (run_events (poll s x) xs)"
    unfolding new_calls_Cons by (simp only: new_calls_poll Cons.IH)
  then show ?case
    by (simp add: calls_of_poll calls_of_append)
qed

lemma run_events_append:
  "run_events s (xs @ ys) = run_events s xs @ run_events (polls s xs) ys"
  by (induction xs arbitrary: s) simp_all

lemma stage_firings_append:
  "stage_firings s (xs @ ys) = stage_firings s xs @ stage_firings (polls s xs) ys"
  by (induction xs arbitrary: s) simp_all

subsection \<open>While the button is held\<close>

text \<open>
  From state Pressed or LongPressed, with the button pressed at every poll, the state
  stays one of the two, and any event other than \<open>LongPressed\<close> and \<open>Hold\<close> is dispatched
  exactly as often as a fired stage names it.
\<close>

lemma held_run:
  assumes "read_pin_func b \<noteq> NULL" and "get_tick_func b \<noteq> NULL"
    and "last_state b = STATE_PRESSED \<or> last_state b = STATE_LONG_PRESSED"
    and "\<forall>x\<in>set xs. is_pressed b (fst x)"
    and "e \<noteq> BUTTON_EVENT_LONG_PRESSED" and "e \<noteq> BUTTON_EVENT_HOLD"
  shows "(last_state (fst (polls (b, w) xs)) = STATE_PRESSED
          \<or> last_state (fst (polls (b, w) xs)) = STATE_LONG_PRESSED)
     \<and> filter (\<lambda>v. v = e) (run_events (b, w) xs)
         = filter (\<lambda>v. v = e) (stage_events b w (stage_firings (b, w) xs))"
  using assms(1-4)
proof (induction xs arbitrary: b w)
  case Nil
  then show ?case by simp
next
  case (Cons x xs)
  obtain pin t where x: "x = (pin, t)"
    by (cases x) auto
  define b' where "b' = fst (poll (b, w) x)"
  define w' where "w' = snd (poll (b, w) x)"
  have step: "poll (b, w) x = (b', w')"
    by (simp add: b'_def w'_def)
  from Cons.prems have pin: "is_pressed b pin"
    by (simp add: x)
  have same: "stages b' = stages b" "stage_mem w' = stage_mem w"
    "read_pin_func b' = read_pin_func b" "get_tick_func b' = get_tick_func b"
    "active_level b' = active_level b"
    by (simp_all add: b'_def w'_def poll_fields)
  have ev: "stage_events b' w' = stage_events b w"
    using same(1,2) by (rule stage_events_fields)
  have pressed': "is_pressed b' = is_pressed b"
    using same(5) by (rule is_pressed_fields)
  have state': "last_state b' = STATE_PRESSED \<or> last_state b' = STATE_LONG_PRESSED"
    using Cons.prems(1-3) pin
    by (auto simp: b'_def x poll_handlers pressed_eq long_pressed_state)
  have first: "filter (\<lambda>v. v = e) (poll_events (b, w) x)
      = filter (\<lambda>v. v = e)
          (stage_events b w
            (if last_state b = STATE_LONG_PRESSED \<and> is_pressed b pin
             then due_stages b w (t - press_start_tick b) else []))"
    using Cons.prems(1-3) pin assms(5,6)
    by (auto simp: poll_events_def x Let_def)
  have ih: "(last_state (fst (polls (b', w') xs)) = STATE_PRESSED
          \<or> last_state (fst (polls (b', w') xs)) = STATE_LONG_PRESSED)
     \<and> filter (\<lambda>v. v = e) (run_events (b', w') xs)
         = filter (\<lambda>v. v = e) (stage_events b' w' (stage_firings (b', w') xs))"
    using Cons.prems(1,2,4) state' by (intro Cons.IH) (simp_all add: same pressed')
  from ih show ?case
    by (simp add: x step [unfolded x] first [unfolded x] ev)
qed

subsection \<open>Polls in state LongPressed with the button pressed\<close>

lemma due_stages_configured:
  "configs (stages b) \<noteq> NULL \<Longrightarrow> latches (stages b) \<noteq> NULL \<Longrightarrow>
   due_stages b w tot = filter (stage_due b w tot) [0..<unat (count (stages b))]"
  by (simp add: due_stages_def)

lemma due_stages_sorted: "sorted_wrt (<) (due_stages b w tot)"
  by (simp add: due_stages_def sorted_wrt_filter)

lemma due_stages_member:
  "k \<in> set (due_stages b w tot) \<Longrightarrow>
   k < unat (count (stages b)) \<and> threshold (stage_cfg b w k) \<le> tot \<and> \<not> stage_latch b w k"
  by (auto simp: due_stages_def stage_due_def split: if_splits)

lemma firings_sorted:
  assumes "last_state b = STATE_LONG_PRESSED"
    and "read_pin_func b \<noteq> NULL" and "get_tick_func b \<noteq> NULL"
    and "validate_stages (stage_mem w) (configs (stages b)) (count (stages b))"
    and "latches (stages b) \<noteq> NULL"
    and "\<forall>x\<in>set xs. is_pressed b (fst x)"
  shows "sorted_wrt (<) (stage_firings (b, w) xs) \<and>
     (\<forall>j\<in>set (stage_firings (b, w) xs). j < unat (count (stages b)) \<and> \<not> stage_latch b w j)"
  using assms
proof (induction xs arbitrary: b w)
  case Nil
  show ?case by simp
next
  case (Cons x xs)
  obtain pin t where x: "x = (pin, t)"
    by (cases x) auto
  let ?n = "unat (count (stages b))"
  let ?tot = "t - press_start_tick b"
  let ?D = "due_stages b w ?tot"
  define b' where "b' = fst (handle_state_long b True t w)"
  define w' where "w' = snd (handle_state_long b True t w)"
  from Cons.prems have pin: "is_pressed b pin"
    by (simp add: x)
  with Cons.prems have step: "poll (b, w) x = (b', w')"
    by (simp add: x long_pressed_poll b'_def w'_def)
  from Cons.prems(4) have cfg: "configs (stages b) \<noteq> NULL"
    by (simp add: validate_stages_iff)
  have same: "stages b' = stages b" "stage_mem w' = stage_mem w"
    "read_pin_func b' = read_pin_func b" "get_tick_func b' = get_tick_func b"
    "active_level b' = active_level b"
    by (simp_all add: b'_def w'_def handler_fields handler_stage_mem)
  have "last_state b' = STATE_LONG_PRESSED"
    using Cons.prems(1) by (simp add: b'_def long_pressed_state)
  moreover have "\<forall>y\<in>set xs. is_pressed b' (fst y)"
    using Cons.prems(6) by (simp add: is_pressed_fields [OF same(5)])
  ultimately have ih: "sorted_wrt (<) (stage_firings (b', w') xs) \<and>
      (\<forall>j\<in>set (stage_firings (b', w') xs). j < ?n \<and> \<not> stage_latch b' w' j)"
    using Cons.IH [of b' w'] Cons.prems(2-5) by (simp add: same)
  have later: "\<not> stage_latch b w j \<and> ?tot < threshold (stage_cfg b w j)"
    if "j < ?n" and "\<not> stage_latch b' w' j" for j
  proof -
    from that(2) have "\<not> latch_mem w' (latches (stages b) + j)"
      by (simp add: stage_latch_def same)
    with that(1) cfg Cons.prems(5) show ?thesis
      by (simp add: w'_def long_pressed_latch_mem stage_latch_def not_le)
  qed
  have before: "k < j" if "k \<in> set ?D" and "j \<in> set (stage_firings (b', w') xs)" for k j
  proof (rule ccontr)
    assume "\<not> k < j"
    from that(1) have k: "k < ?n" "threshold (stage_cfg b w k) \<le> ?tot"
      using due_stages_member by blast+
    from that(2) ih have "j < ?n" "\<not> stage_latch b' w' j"
      by blast+
    then have j: "?tot < threshold (stage_cfg b w j)"
      using later by blast
    show False
    proof (cases "j = k")
      case True
      with k j show False by simp
    next
      case False
      with \<open>\<not> k < j\<close> have "j < k" by simp
      from validate_stages_strict_mono [OF Cons.prems(4) this k(1)]
      have "threshold (stage_cfg b w j) < threshold (stage_cfg b w k)"
        by (simp add: stage_cfg_def)
      with k j show False by simp
    qed
  qed
  have firings: "stage_firings (b, w) (x # xs) = ?D @ stage_firings (b', w') xs"
    using Cons.prems(1) pin by (simp add: x step [unfolded x])
  have "sorted_wrt (<) (?D @ stage_firings (b', w') xs)"
    using ih before by (simp add: sorted_wrt_append due_stages_sorted)
  moreover have "j < ?n \<and> \<not> stage_latch b w j" if "j \<in> set (?D @ stage_firings (b', w') xs)" for j
  proof (cases "j \<in> set ?D")
    case True
    then show ?thesis using due_stages_member by blast
  next
    case False
    with that have "j \<in> set (stage_firings (b', w') xs)" by simp
    with ih have "j < ?n" "\<not> stage_latch b' w' j" by blast+
    with later show ?thesis by blast
  qed
  ultimately show ?case
    unfolding firings by blast
qed

lemma polls_long_pressed:
  assumes "last_state b = STATE_LONG_PRESSED"
    and "read_pin_func b \<noteq> NULL" and "get_tick_func b \<noteq> NULL"
    and "\<forall>x\<in>set xs. is_pressed b (fst x)"
  shows "last_state (fst (polls (b, w) xs)) = STATE_LONG_PRESSED"
  using assms
proof (induction xs arbitrary: b w)
  case Nil
  then show ?case by simp
next
  case (Cons x xs)
  obtain pin t where x: "x = (pin, t)"
    by (cases x) auto
  define b' where "b' = fst (handle_state_long b True t w)"
  define w' where "w' = snd (handle_state_long b True t w)"
  from Cons.prems have step: "poll (b, w) x = (b', w')"
    by (simp add: x long_pressed_poll b'_def w'_def)
  have "active_level b' = active_level b"
    by (simp add: b'_def handler_fields)
  then have "is_pressed b' = is_pressed b"
    by (rule is_pressed_fields)
  then have "\<forall>y\<in>set xs. is_pressed b' (fst y)"
    using Cons.prems(4) by simp
  moreover have "last_state b' = STATE_LONG_PRESSED" "read_pin_func b' \<noteq> NULL"
    "get_tick_func b' \<noteq> NULL"
    using Cons.prems(1-3) by (simp_all add: b'_def long_pressed_state handler_fields)
  ultimately have "last_state (fst (polls (b', w') xs)) = STATE_LONG_PRESSED"
    by (rule Cons.IH [rotated 3])
  then show ?case
    by (simp add: step)
qed

subsection \<open>Counting dispatched events\<close>

lemma calls_of_filter:
  "filter (\<lambda>c. fst (snd c) = e) (calls_of b evs) = calls_of b (filter (\<lambda>v. v = e) evs)"
  by (simp add: calls_of_def filter_map comp_def)

lemma stage_firings_bound:
  "k \<in> set (stage_firings s xs) \<Longrightarrow> k < unat (count (stages (fst s)))"
proof (induction xs arbitrary: s)
  case Nil
  then show ?case by simp
next
  case (Cons x xs)
  from Cons.prems consider
    (now) "k \<in> set (due_stages (fst s) (snd s) (snd x - press_start_tick (fst s)))"
    | (later) "k \<in> set (stage_firings (poll s x) xs)"
    by (auto split: if_splits)
  then show ?case
  proof cases
    case now
    then show ?thesis using due_stages_member by blast
  next
    case later
    then have "k < unat (count (stages (fst (poll s x))))"
      by (rule Cons.IH)
    then show ?thesis by (simp add: poll_fields)
  qed
qed

lemma no_stage_event:
  assumes "\<forall>k<unat (count (stages b)). event (stage_cfg b w k) \<noteq> e"
  shows "filter (\<lambda>v. v = e) (stage_events b w (stage_firings (b, w) xs)) = []"
proof -
  have "k < unat (count (stages b))" if "k \<in> set (stage_firings (b, w) xs)" for k
    using stage_firings_bound [OF that] by simp
  with assms show ?thesis
    by (auto simp: stage_events_def filter_empty_conv)
qed

lemma release_poll:
  assumes "read_pin_func b \<noteq> NULL" and "get_tick_func b \<noteq> NULL"
    and "last_state b = STATE_PRESSED \<or> last_state b = STATE_LONG_PRESSED"
    and "\<not> is_pressed b pin"
  shows "last_state (fst (poll (b, w) (pin, t))) = STATE_IDLE"
    and "poll_events (b, w) (pin, t) = [BUTTON_EVENT_RELEASED]"
  using assms
  by (auto simp: poll_handlers pressed_eq long_released_fst poll_events_def Let_def)

lemma no_due_stage_event:
  assumes "\<forall>k<unat (count (stages b)). event (stage_cfg b w k) \<noteq> e"
  shows "filter (\<lambda>v. v = e) (stage_events b w (due_stages b w tot)) = []"
proof -
  have "k < unat (count (stages b))" if "k \<in> set (due_stages b w tot)" for k
    using due_stages_member [OF that] by simp
  with assms show ?thesis
    by (auto simp: stage_events_def filter_empty_conv)
qed

subsection \<open>Debouncing\<close>

lemma debounce_wait:
  assumes "read_pin_func b \<noteq> NULL" and "get_tick_func b \<noteq> NULL"
    and "last_state b = STATE_DEBOUNCE"
    and "\<forall>x\<in>set xs. snd x - last_change_tick b < BUTTON_DEBOUNCE_TICKS"
  shows "polls (b, w) xs = (b, w) \<and> run_events (b, w) xs = []
    \<and> stage_firings (b, w) xs = []"
  using assms(4)
proof (induction xs)
  case Nil
  show ?case by simp
next
  case (Cons x xs)
  obtain pin t where x: "x = (pin, t)"
    by (cases x) auto
  from Cons.prems have early: "t - last_change_tick b < BUTTON_DEBOUNCE_TICKS"
    by (simp add: x)
  then have "\<not> BUTTON_DEBOUNCE_TICKS \<le> t - last_change_tick b"
    by (simp add: not_le)
  with assms(1-3) early have step: "poll (b, w) (pin, t) = (b, w)"
    and ev: "poll_events (b, w) (pin, t) = []"
    by (simp_all add: poll_handlers debounce_eq poll_events_def Let_def)
  from Cons.prems have "\<forall>x\<in>set xs. snd x - last_change_tick b < BUTTON_DEBOUNCE_TICKS"
    by simp
  then have "polls (b, w) xs = (b, w) \<and> run_events (b, w) xs = []
      \<and> stage_firings (b, w) xs = []"
    by (rule Cons.IH)
  with assms(3) show ?case
    by (simp add: x step ev)
qed

lemma debounce_run:
  assumes fns: "read_pin_func b \<noteq> NULL" "get_tick_func b \<noteq> NULL"
    and idle: "last_state b = STATE_IDLE"
    and first: "is_pressed b p0"
    and early: "\<forall>x\<in>set early. snd x - t0 < BUTTON_DEBOUNCE_TICKS"
    and late: "BUTTON_DEBOUNCE_TICKS \<le> t1 - t0"
  shows "polls (b, w) ((p0, t0) # early @ [(p1, t1)]) =
      (if is_pressed b p1
       then (b\<lparr>last_state := STATE_PRESSED, last_change_tick := t1\<rparr>,
             w\<lparr>delivered := delivered w @ calls_of b [BUTTON_EVENT_PRESSED]\<rparr>)
       else (b\<lparr>last_state := STATE_IDLE, last_change_tick := t0\<rparr>, w))"
    and "run_events (b, w) ((p0, t0) # early @ [(p1, t1)]) =
      (if is_pressed b p1 then [BUTTON_EVENT_PRESSED] else [])"
    and "stage_firings (b, w) ((p0, t0) # early @ [(p1, t1)]) = []"
proof -
  define bd where "bd = b\<lparr>last_state := STATE_DEBOUNCE, last_change_tick := t0\<rparr>"
  have bd: "read_pin_func bd \<noteq> NULL" "get_tick_func bd \<noteq> NULL"
    "last_state bd = STATE_DEBOUNCE" "last_change_tick bd = t0"
    "is_pressed bd = is_pressed b" "calls_of bd = calls_of b"
    using fns by (simp_all add: bd_def is_pressed_def calls_of_def fun_eq_iff)
  have step0: "poll (b, w) (p0, t0) = (bd, w)"
    and ev0: "poll_events (b, w) (p0, t0) = []"
    using fns idle first
    by (simp_all add: poll_handlers handle_state_idle_def poll_events_def Let_def bd_def)
  from early have "\<forall>x\<in>set early. snd x - last_change_tick bd < BUTTON_DEBOUNCE_TICKS"
    by (simp add: bd)
  from debounce_wait [OF bd(1-3) this]
  have wait: "polls (bd, w) early = (bd, w)" "run_events (bd, w) early = []"
    "stage_firings (bd, w) early = []"
    by blast+
  from late have late': "\<not> t1 - last_change_tick bd < BUTTON_DEBOUNCE_TICKS"
    by (simp add: bd not_less)
  have step1: "poll (bd, w) (p1, t1) =
      (if is_pressed b p1
       then (b\<lparr>last_state := STATE_PRESSED, last_change_tick := t1\<rparr>,
             w\<lparr>delivered := delivered w @ calls_of b [BUTTON_EVENT_PRESSED]\<rparr>)
       else (b\<lparr>last_state := STATE_IDLE, last_change_tick := t0\<rparr>, w))"
    using bd(1-3) late' by (simp add: poll_handlers debounce_eq bd(5,6)) (simp add: bd_def)
  have ev1: "poll_events (bd, w) (p1, t1) =
      (if is_pressed b p1 then [BUTTON_EVENT_PRESSED] else [])"
    using bd(1-3) late by (simp add: poll_events_def Let_def bd(4,5))
  show "polls (b, w) ((p0, t0) # early @ [(p1, t1)]) =
      (if is_pressed b p1
       then (b\<lparr>last_state := STATE_PRESSED, last_change_tick := t1\<rparr>,
             w\<lparr>delivered := delivered w @ calls_of b [BUTTON_EVENT_PRESSED]\<rparr>)
       else (b\<lparr>last_state := STATE_IDLE, last_change_tick := t0\<rparr>, w))"
    by (simp add: step0 polls_append wait step1)
  show "run_events (b, w) ((p0, t0) # early @ [(p1, t1)]) =
      (if is_pressed b p1 then [BUTTON_EVENT_PRESSED] else [])"
    by (simp add: step0 ev0 run_events_append wait ev1)
  show "stage_firings (b, w) ((p0, t0) # early @ [(p1, t1)]) = []"
    using idle bd(3) by (simp add: step0 stage_firings_append wait)
qed

subsection \<open>The life of a latch\<close>

lemma poll_latch_other:
  "last_state b \<noteq> STATE_LONG_PRESSED \<Longrightarrow> latch_mem (snd (poll (b, w) x)) = latch_mem w"
proof -
  assume other: "last_state b \<noteq> STATE_LONG_PRESSED"
  obtain pin t where x: "x = (pin, t)"
    by (cases x) auto
  show ?thesis
  proof (cases "read_pin_func b = NULL \<or> get_tick_func b = NULL")
    case True
    then show ?thesis by (simp add: poll_unchecked)
  next
    case False
    with other show ?thesis
      unfolding x
      by (cases "last_state b") (simp_all add: poll_handlers debounce_eq pressed_eq)
  qed
qed

lemma long_pressed_latch_due:
  "latch_mem (snd (handle_state_long b True t w)) a \<longleftrightarrow>
     latch_mem w a
     \<or> (\<exists>k\<in>set (due_stages b w (t - press_start_tick b)). a = latches (stages b) + k)"
proof (cases "latch_mem w a")
  case True
  then show ?thesis by (simp add: long_pressed_latch_mem)
next
  case False
  let ?tot = "t - press_start_tick b"
  let ?n = "unat (count (stages b))"
  let ?on = "configs (stages b) \<noteq> NULL \<and> latches (stages b) \<noteq> NULL"
  have "(\<exists>k\<in>set (due_stages b w ?tot). a = latches (stages b) + k) \<longleftrightarrow>
      ?on \<and> (\<exists>k. k < ?n \<and> threshold (stage_cfg b w k) \<le> ?tot \<and> a = latches (stages b) + k)"
    using False by (auto simp: due_stages_def stage_due_def stage_latch_def)
  also have "\<dots> \<longleftrightarrow> ?on \<and> latches (stages b) \<le> a \<and> a < latches (stages b) + ?n
        \<and> threshold (stage_cfg b w (a - latches (stages b))) \<le> ?tot"
    by (auto intro: exI [of _ "a - latches (stages b)"])
  finally show ?thesis
    using False by (simp add: long_pressed_latch_mem)
qed

lemma poll_latch_mono:
  assumes "\<not> (last_state b = STATE_LONG_PRESSED \<and> \<not> is_pressed b pin)"
    and "latch_mem w a"
  shows "latch_mem (snd (poll (b, w) (pin, t))) a"
proof (cases "last_state b = STATE_LONG_PRESSED")
  case False
  with assms(2) show ?thesis by (simp add: poll_latch_other)
next
  case True
  with assms(1) have pressed: "is_pressed b pin" by simp
  show ?thesis
  proof (cases "read_pin_func b = NULL \<or> get_tick_func b = NULL")
    case True
    with assms(2) show ?thesis by (simp add: poll_unchecked)
  next
    case False
    with True pressed assms(2) show ?thesis
      by (simp add: long_pressed_poll long_pressed_latch_mem)
  qed
qed

lemma no_long_poll_latches:
  "no_long_poll s xs \<Longrightarrow> latch_mem (snd (polls s xs)) = latch_mem (snd s)"
proof (induction xs arbitrary: s)
  case Nil
  show ?case by simp
next
  case (Cons x xs)
  from Cons.prems have "last_state (fst s) \<noteq> STATE_LONG_PRESSED"
    and rest: "no_long_poll (poll s x) xs"
    by simp_all
  then have "latch_mem (snd (poll s x)) = latch_mem (snd s)"
    using poll_latch_other [of "fst s" "snd s" x] by simp
  with Cons.IH [OF rest] show ?case
    by simp
qed

lemma latch_kept:
  assumes "stage_latch (fst s) (snd s) k" and "no_long_release s xs"
  shows "stage_latch (fst (polls s xs)) (snd (polls s xs)) k \<and> k \<notin> set (stage_firings s xs)"
  using assms
proof (induction xs arbitrary: s)
  case Nil
  then show ?case by simp
next
  case (Cons x xs)
  obtain b w pin t where s: "s = (b, w)" and x: "x = (pin, t)"
    by (cases s, cases x) auto
  from Cons.prems(2) have kept: "\<not> (last_state b = STATE_LONG_PRESSED \<and> \<not> is_pressed b pin)"
    and rest: "no_long_release (poll s x) xs"
    by (simp_all add: s x)
  from Cons.prems(1) have set: "latch_mem w (latches (stages b) + k)"
    by (simp add: s stage_latch_def)
  from poll_latch_mono [OF kept set, of t]
  have "stage_latch (fst (poll s x)) (snd (poll s x)) k"
    by (simp add: stage_latch_def poll_fields s x)
  from Cons.IH [OF this rest]
  have later: "stage_latch (fst (polls (poll s x) xs)) (snd (polls (poll s x) xs)) k"
    "k \<notin> set (stage_firings (poll s x) xs)"
    by simp_all
  have "k \<notin> set (due_stages b w tot)" for tot
    using due_stages_member [of k b w tot] Cons.prems(1) by (auto simp: s)
  with later show ?case
    by (simp add: s x)
qed

section \<open>The claims\<close>

subsection \<open>C1: the stage scan\<close>

text \<open>
  Claim C1. For a button in state \<open>LongPressed\<close> that is still pressed, a poll visits the
  configured stages in ascending index order and, for each stage whose latch is unset and
  whose threshold is at most \<open>current_tick - press_start_tick\<close>, sets that latch and
  dispatches that stage's event: the latches set are those of the due stages, and the
  calls delivered are the due stages' events in ascending index order (followed by the
  hold event when the hold-repeat scan fires). Consequently, along any sequence of polls
  with the button held, the state stays \<open>LongPressed\<close> with the same stage
  configuration, no stage fires twice, and the stages fire in strictly ascending index
  order and so in strictly ascending threshold order. Several stages may fire within one
  poll: there is a valid configuration in which one scan finds more than one stage due.
\<close>

theorem stage_scan_fires_once_in_threshold_order:
  assumes long: "last_state b = STATE_LONG_PRESSED"
    and fns: "read_pin_func b \<noteq> NULL" "get_tick_func b \<noteq> NULL"
    and valid: "validate_stages (stage_mem w) (configs (stages b)) (count (stages b))"
    and lat: "latches (stages b) \<noteq> NULL"
    and pin: "is_pressed b pin"
    and pins: "\<forall>x\<in>set xs. is_pressed b (fst x)"
  shows "due_stages b w (t - press_start_tick b) =
        filter (\<lambda>k. threshold (stage_cfg b w k) \<le> t - press_start_tick b \<and> \<not> stage_latch b w k)
          [0..<unat (count (stages b))]
    \<and> (\<forall>a. latch_mem (snd (poll (b, w) (pin, t))) a \<longleftrightarrow>
          latch_mem w a
          \<or> (\<exists>k\<in>set (due_stages b w (t - press_start_tick b)). a = latches (stages b) + k))
    \<and> new_calls w (snd (poll (b, w) (pin, t))) =
        calls_of b (stage_events b w (due_stages b w (t - press_start_tick b))
                    @ (if hold_due b t then [BUTTON_EVENT_HOLD] else []))
    \<and> last_state (fst (polls (b, w) xs)) = STATE_LONG_PRESSED
    \<and> stages (fst (polls (b, w) xs)) = stages b
    \<and> stage_mem (snd (polls (b, w) xs)) = stage_mem w
    \<and> distinct (stage_firings (b, w) xs)
    \<and> sorted_wrt (<) (stage_firings (b, w) xs)
    \<and> sorted_wrt (\<lambda>i j. threshold (stage_cfg b w i) < threshold (stage_cfg b w j))
          (stage_firings (b, w) xs)
    \<and> (\<exists>b0 w0 tot0.
          validate_stages (stage_mem w0) (configs (stages b0)) (count (stages b0))
          \<and> latches (stages b0) \<noteq> NULL \<and> 1 < length (due_stages b0 w0 tot0))"
proof -
  let ?tot = "t - press_start_tick b"
  let ?n = "unat (count (stages b))"
  from valid have cfg: "configs (stages b) \<noteq> NULL"
    by (simp add: validate_stages_iff)
  have step: "poll (b, w) (pin, t) = handle_state_long b True t w"
    using long fns pin by (rule long_pressed_poll)
  have due: "due_stages b w ?tot =
      filter (\<lambda>k. threshold (stage_cfg b w k) \<le> ?tot \<and> \<not> stage_latch b w k) [0..<?n]"
    using cfg lat by (simp add: due_stages_def stage_due_def [abs_def])
  have latch: "latch_mem (snd (poll (b, w) (pin, t))) a \<longleftrightarrow>
      latch_mem w a \<or> (\<exists>k\<in>set (due_stages b w ?tot). a = latches (stages b) + k)" for a
  proof -
    have "latch_mem w a \<or> (latches (stages b) \<le> a \<and> a < latches (stages b) + ?n
            \<and> threshold (stage_cfg b w (a - latches (stages b))) \<le> ?tot)
        \<longleftrightarrow> latch_mem w a \<or> (\<exists>k\<in>set (due_stages b w ?tot). a = latches (stages b) + k)"
    proof (cases "latch_mem w a")
      case True
      then show ?thesis by simp
    next
      case False
      have "(\<exists>k\<in>set (due_stages b w ?tot). a = latches (stages b) + k) \<longleftrightarrow>
          (\<exists>k. k < ?n \<and> threshold (stage_cfg b w k) \<le> ?tot \<and> a = latches (stages b) + k)"
        using False unfolding due by (auto simp: stage_latch_def)
      also have "\<dots> \<longleftrightarrow> (latches (stages b) \<le> a \<and> a < latches (stages b) + ?n
            \<and> threshold (stage_cfg b w (a - latches (stages b))) \<le> ?tot)"
        by (auto intro: exI [of _ "a - latches (stages b)"])
      finally show ?thesis by simp
    qed
    with cfg lat show ?thesis
      by (simp add: step long_pressed_latch_mem)
  qed
  have calls: "new_calls w (snd (poll (b, w) (pin, t))) =
      calls_of b (stage_events b w (due_stages b w ?tot)
                  @ (if hold_due b t then [BUTTON_EVENT_HOLD] else []))"
    by (simp add: step new_calls_def long_pressed_delivered)
  have stay: "last_state (fst (polls (b, w) xs)) = STATE_LONG_PRESSED"
    using long fns pins by (rule polls_long_pressed)
  have same: "stages (fst (polls (b, w) xs)) = stages b"
    "stage_mem (snd (polls (b, w) xs)) = stage_mem w"
    by (simp_all add: polls_fields)
  from firings_sorted [OF long fns valid lat pins]
  have sorted: "sorted_wrt (<) (stage_firings (b, w) xs)"
    and bound: "\<forall>j\<in>set (stage_firings (b, w) xs). j < ?n"
    by blast+
  from sorted have dist: "distinct (stage_firings (b, w) xs)"
    by (simp add: strict_sorted_iff)
  have thresholds: "sorted_wrt (\<lambda>i j. threshold (stage_cfg b w i) < threshold (stage_cfg b w j))
      (stage_firings (b, w) xs)"
  proof (rule sorted_wrt_mono_rel [OF _ sorted])
    fix i j
    assume "i \<in> set (stage_firings (b, w) xs)" and "j \<in> set (stage_firings (b, w) xs)"
      and "i < j"
    with bound have "i < j" "j < ?n" by blast+
    from validate_stages_strict_mono [OF valid this]
    show "threshold (stage_cfg b w i) < threshold (stage_cfg b w j)"
      by (simp add: stage_cfg_def)
  qed
  have several: "\<exists>b0 w0 tot0.
      validate_stages (stage_mem w0) (configs (stages b0)) (count (stages b0))
      \<and> latches (stages b0) \<noteq> NULL \<and> 1 < length (due_stages b0 w0 tot0)"
  proof (intro exI conjI)
    show "validate_stages (stage_mem demo_world) (configs (stages demo_long_button))
        (count (stages demo_long_button))"
      by (simp add: demo_world_def demo_long_button_def demo_staged_button_def
          validate_stages_def validate_stages_from.simps NULL_def)
    show "latches (stages demo_long_button) \<noteq> NULL"
      by (simp add: demo_long_button_def demo_staged_button_def NULL_def)
    show "1 < length (due_stages demo_long_button demo_world 250)"
      by (simp add: demo_world_def demo_long_button_def demo_staged_button_def
          due_stages_def stage_due_def stage_cfg_def stage_latch_def NULL_def upt_two)
  qed
  from due latch calls stay same dist sorted thresholds several show ?thesis
    by (intro conjI allI)
qed

text \<open>
  The witness: the two-stage button, held since tick 0 with thresholds 100 and 200. One
  poll at tick 250 finds both stages due and delivers both events in index order; polls
  at ticks 150 and 250 fire stage 0 and then stage 1.
\<close>

theorem stage_scan_fires_once_in_threshold_order_witness:
  "last_state demo_long_button = STATE_LONG_PRESSED
   \<and> read_pin_func demo_long_button \<noteq> NULL \<and> get_tick_func demo_long_button \<noteq> NULL
   \<and> validate_stages (stage_mem demo_world) (configs (stages demo_long_button))
        (count (stages demo_long_button))
   \<and> latches (stages demo_long_button) \<noteq> NULL
   \<and> is_pressed demo_long_button False
   \<and> list_all (\<lambda>x. is_pressed demo_long_button (fst x)) [(False, 150), (False, 250)]
   \<and> due_stages demo_long_button demo_world (250 - press_start_tick demo_long_button) = [0, 1]
   \<and> new_calls demo_world (snd (poll (demo_long_button, demo_world) (False, 250)))
        = [(3, BUTTON_EVENT_LONG_PRESSED, 7), (3, BUTTON_EVENT_SUPER_LONG_PRESSED, 7)]
   \<and> stage_firings (demo_long_button, demo_world) [(False, 150), (False, 250)] = [0, 1]
   \<and> distinct (stage_firings (demo_long_button, demo_world) [(False, 150), (False, 250)])
   \<and> sorted_wrt (\<lambda>i j. threshold (stage_cfg demo_long_button demo_world i)
                          < threshold (stage_cfg demo_long_button demo_world j))
        (stage_firings (demo_long_button, demo_world) [(False, 150), (False, 250)])"
proof -
  have h1: "last_state demo_long_button = STATE_LONG_PRESSED"
    by (simp add: demo_defs)
  have h2: "read_pin_func demo_long_button \<noteq> NULL"
    and h3: "get_tick_func demo_long_button \<noteq> NULL"
    and h5: "latches (stages demo_long_button) \<noteq> NULL"
    by (simp_all add: demo_defs NULL_def)
  have h4: "validate_stages (stage_mem demo_world) (configs (stages demo_long_button))
      (count (stages demo_long_button))"
    by (simp add: demo_defs validate_stages_def validate_stages_from.simps NULL_def)
  have h6: "is_pressed demo_long_button False"
    by (simp add: demo_defs is_pressed_def)
  then have h7: "\<forall>x\<in>set [(False, 150), (False, 250)]. is_pressed demo_long_button (fst x)"
    by simp
  note main = stage_scan_fires_once_in_threshold_order [OF h1 h2 h3 h4 h5 h6 h7, of 250]
  have due: "due_stages demo_long_button demo_world (250 - press_start_tick demo_long_button)
      = [0, 1]"
    by (simp add: demo_defs stage_defs NULL_def upt_two)
  have hold: "\<not> hold_due demo_long_button 250"
    by (simp add: demo_defs hold_due_def BUTTON_LONG_PRESS_TICKS_def)
  from main have "new_calls demo_world (snd (poll (demo_long_button, demo_world) (False, 250)))
      = calls_of demo_long_button
          (stage_events demo_long_button demo_world
             (due_stages demo_long_button demo_world (250 - press_start_tick demo_long_button))
           @ (if hold_due demo_long_button 250 then [BUTTON_EVENT_HOLD] else []))"
    by blast
  then have calls: "new_calls demo_world (snd (poll (demo_long_button, demo_world) (False, 250)))
      = [(3, BUTTON_EVENT_LONG_PRESSED, 7), (3, BUTTON_EVENT_SUPER_LONG_PRESSED, 7)]"
    unfolding due using hold
    by (simp add: calls_of_def stage_events_def stage_cfg_def demo_defs NULL_def)
  have step: "poll (demo_long_button, demo_world) (False, 150)
      = handle_state_long demo_long_button True 150 demo_world"
    using h1 h2 h3 h6 by (rule long_pressed_poll)
  define b1 where "b1 = fst (handle_state_long demo_long_button True 150 demo_world)"
  define w1 where "w1 = snd (handle_state_long demo_long_button True 150 demo_world)"
  have b1: "last_state b1 = STATE_LONG_PRESSED" "is_pressed b1 False"
    "press_start_tick b1 = 0" "stages b1 = \<lparr>configs = 10, latches = 40, count = 2\<rparr>"
    by (simp_all add: b1_def long_pressed_state handler_fields is_pressed_def demo_defs)
  have w1: "stage_mem w1 = demo_stage_mem" "latch_mem w1 40" "\<not> latch_mem w1 41"
    by (simp_all add: w1_def handler_stage_mem long_pressed_latch_mem stage_cfg_def demo_defs
        NULL_def)
  have "stage_firings (demo_long_button, demo_world) [(False, 150), (False, 250)]
      = due_stages demo_long_button demo_world (150 - press_start_tick demo_long_button)
        @ due_stages b1 w1 (250 - press_start_tick b1)"
    using h1 h6 b1(1,2) by (simp add: step b1_def [symmetric] w1_def [symmetric])
  also have "due_stages demo_long_button demo_world (150 - press_start_tick demo_long_button) = [0]"
    by (simp add: demo_defs stage_defs NULL_def upt_two)
  also have "due_stages b1 w1 (250 - press_start_tick b1) = [1]"
    by (simp add: b1 w1 stage_defs NULL_def upt_two)
  finally have firings:
    "stage_firings (demo_long_button, demo_world) [(False, 150), (False, 250)] = [0, 1]"
    by simp
  from main have "distinct (stage_firings (demo_long_button, demo_world) [(False, 150), (False, 250)])"
    and "sorted_wrt (\<lambda>i j. threshold (stage_cfg demo_long_button demo_world i)
                          < threshold (stage_cfg demo_long_button demo_world j))
        (stage_firings (demo_long_button, demo_world) [(False, 150), (False, 250)])"
    by blast+
  with h1 h2 h3 h4 h5 h6 due calls firings show ?thesis
    by simp
qed

subsection \<open>C2: the hold-repeat scan\<close>

text \<open>
  Claim C2, as amended. In state \<open>LongPressed\<close> with the button still pressed, the
  hold-repeat scan fires exactly when \<open>current_tick - press_start_tick\<close> has reached
  \<open>LONG_PRESS_TICKS\<close> and \<open>current_tick - last_hold_tick\<close> has reached \<open>HOLD_TICKS\<close>; it then
  sets \<open>last_hold_tick\<close> to the current tick and dispatches one \<open>Hold\<close> event, after the
  events of the stage scan; otherwise it leaves \<open>last_hold_tick\<close> and dispatches nothing.
  The \<open>Hold\<close> events of a poll are therefore that one and, before it, one for every due
  stage whose configured event is \<open>Hold\<close>: when no configured stage carries the event
  \<open>Hold\<close>, a poll dispatches exactly one \<open>Hold\<close> when the scan fires and none when it does
  not. After the scan has fired at tick \<open>t\<close> it does not fire again before \<open>HOLD_TICKS\<close>
  have elapsed since \<open>t\<close>. Both timers start at the tick of the poll that enters
  \<open>LongPressed\<close>.
\<close>

theorem hold_repeat_cadence:
  assumes long: "last_state b = STATE_LONG_PRESSED"
    and fns: "read_pin_func b \<noteq> NULL" "get_tick_func b \<noteq> NULL"
    and pressed: "is_pressed b pin"
  shows "hold_due b t =
        (BUTTON_LONG_PRESS_TICKS \<le> t - press_start_tick b
         \<and> BUTTON_HOLD_TICKS \<le> t - last_hold_tick b)
    \<and> last_hold_tick (fst (poll (b, w) (pin, t))) = (if hold_due b t then t else last_hold_tick b)
    \<and> press_start_tick (fst (poll (b, w) (pin, t))) = press_start_tick b
    \<and> last_state (fst (poll (b, w) (pin, t))) = STATE_LONG_PRESSED
    \<and> new_calls w (snd (poll (b, w) (pin, t))) =
        calls_of b (stage_events b w (due_stages b w (t - press_start_tick b))
                    @ (if hold_due b t then [BUTTON_EVENT_HOLD] else []))
    \<and> filter (\<lambda>c. fst (snd c) = BUTTON_EVENT_HOLD) (new_calls w (snd (poll (b, w) (pin, t)))) =
        calls_of b
          (filter (\<lambda>v. v = BUTTON_EVENT_HOLD)
             (stage_events b w (due_stages b w (t - press_start_tick b)))
           @ (if hold_due b t then [BUTTON_EVENT_HOLD] else []))
    \<and> ((\<forall>k<unat (count (stages b)). event (stage_cfg b w k) \<noteq> BUTTON_EVENT_HOLD) \<longrightarrow>
        filter (\<lambda>c. fst (snd c) = BUTTON_EVENT_HOLD) (new_calls w (snd (poll (b, w) (pin, t)))) =
          calls_of b (if hold_due b t then [BUTTON_EVENT_HOLD] else []))
    \<and> (hold_due b t \<and> hold_due (fst (poll (b, w) (pin, t))) t' \<longrightarrow> BUTTON_HOLD_TICKS \<le> t' - t)
    \<and> (last_state b0 = STATE_PRESSED \<and> read_pin_func b0 \<noteq> NULL \<and> get_tick_func b0 \<noteq> NULL
        \<and> is_pressed b0 pin \<and> BUTTON_LONG_PRESS_TICKS \<le> t - last_change_tick b0 \<longrightarrow>
        last_state (fst (poll (b0, w) (pin, t))) = STATE_LONG_PRESSED
        \<and> press_start_tick (fst (poll (b0, w) (pin, t))) = t
        \<and> last_hold_tick (fst (poll (b0, w) (pin, t))) = t)"
proof -
  have step: "poll (b, w) (pin, t) = handle_state_long b True t w"
    using long fns pressed by (rule long_pressed_poll)
  have c1: "hold_due b t =
        (BUTTON_LONG_PRESS_TICKS \<le> t - press_start_tick b
         \<and> BUTTON_HOLD_TICKS \<le> t - last_hold_tick b)"
    by (simp add: hold_due_def)
  have c2: "last_hold_tick (fst (poll (b, w) (pin, t))) = (if hold_due b t then t else last_hold_tick b)"
    by (simp add: step long_pressed_fst)
  have c3: "press_start_tick (fst (poll (b, w) (pin, t))) = press_start_tick b"
    and c4: "last_state (fst (poll (b, w) (pin, t))) = STATE_LONG_PRESSED"
    using long by (simp_all add: step long_pressed_state)
  have c5: "new_calls w (snd (poll (b, w) (pin, t))) =
        calls_of b (stage_events b w (due_stages b w (t - press_start_tick b))
                    @ (if hold_due b t then [BUTTON_EVENT_HOLD] else []))"
    by (simp add: step new_calls_def long_pressed_delivered)
  have c6: "filter (\<lambda>c. fst (snd c) = BUTTON_EVENT_HOLD) (new_calls w (snd (poll (b, w) (pin, t)))) =
        calls_of b
          (filter (\<lambda>v. v = BUTTON_EVENT_HOLD)
             (stage_events b w (due_stages b w (t - press_start_tick b)))
           @ (if hold_due b t then [BUTTON_EVENT_HOLD] else []))"
    unfolding c5 calls_of_filter by simp
  have c7: "filter (\<lambda>c. fst (snd c) = BUTTON_EVENT_HOLD) (new_calls w (snd (poll (b, w) (pin, t)))) =
          calls_of b (if hold_due b t then [BUTTON_EVENT_HOLD] else [])"
    if "\<forall>k<unat (count (stages b)). event (stage_cfg b w k) \<noteq> BUTTON_EVENT_HOLD"
    unfolding c6 by (simp only: no_due_stage_event [OF that] append_Nil)
  have c8: "BUTTON_HOLD_TICKS \<le> t' - t"
    if "hold_due b t \<and> hold_due (fst (poll (b, w) (pin, t))) t'"
  proof -
    from that have "fst (poll (b, w) (pin, t)) = b\<lparr>last_hold_tick := t\<rparr>"
      by (simp add: step long_pressed_fst)
    with that have "hold_due (b\<lparr>last_hold_tick := t\<rparr>) t'"
      by simp
    then show ?thesis
      by (simp add: hold_due_def)
  qed
  have c9: "last_state (fst (poll (b0, w) (pin, t))) = STATE_LONG_PRESSED
        \<and> press_start_tick (fst (poll (b0, w) (pin, t))) = t
        \<and> last_hold_tick (fst (poll (b0, w) (pin, t))) = t"
    if "last_state b0 = STATE_PRESSED \<and> read_pin_func b0 \<noteq> NULL \<and> get_tick_func b0 \<noteq> NULL
        \<and> is_pressed b0 pin \<and> BUTTON_LONG_PRESS_TICKS \<le> t - last_change_tick b0"
    using that by (simp add: poll_handlers pressed_eq)
  from c1 c2 c3 c4 c5 c6 c7 c8 c9 show ?thesis
    by blast
qed

text \<open>
  The witness, on the two-stage button held since tick 0 (no stage carries \<open>Hold\<close>): the
  poll at tick 1000 fires the hold-repeat scan, sets \<open>last_hold_tick\<close> to 1000 and
  delivers one \<open>Hold\<close>; a scan that fires again at tick 1060 is at least \<open>HOLD_TICKS\<close>
  later; with \<open>last_hold_tick\<close> at 1000 the poll at tick 1020 delivers no \<open>Hold\<close> and
  leaves \<open>last_hold_tick\<close>; and the poll that turns the press validated at tick 0 into
  a long press at tick 1000 starts both timers at 1000.
\<close>

theorem hold_repeat_cadence_witness:
  "last_state demo_long_button = STATE_LONG_PRESSED
   \<and> read_pin_func demo_long_button \<noteq> NULL \<and> get_tick_func demo_long_button \<noteq> NULL
   \<and> is_pressed demo_long_button False
   \<and> event (stage_cfg demo_long_button demo_world 0) \<noteq> BUTTON_EVENT_HOLD
   \<and> event (stage_cfg demo_long_button demo_world 1) \<noteq> BUTTON_EVENT_HOLD
   \<and> hold_due demo_long_button 1000
   \<and> last_hold_tick (fst (poll (demo_long_button, demo_world) (False, 1000))) = 1000
   \<and> filter (\<lambda>c. fst (snd c) = BUTTON_EVENT_HOLD)
        (new_calls demo_world (snd (poll (demo_long_button, demo_world) (False, 1000))))
        = [(3, BUTTON_EVENT_HOLD, 7)]
   \<and> hold_due (fst (poll (demo_long_button, demo_world) (False, 1000))) 1060
   \<and> BUTTON_HOLD_TICKS \<le> 1060 - 1000
   \<and> \<not> hold_due (demo_long_button\<lparr>last_hold_tick := 1000\<rparr>) 1020
   \<and> last_hold_tick (fst (poll (demo_long_button\<lparr>last_hold_tick := 1000\<rparr>, demo_world)
          (False, 1020))) = 1000
   \<and> filter (\<lambda>c. fst (snd c) = BUTTON_EVENT_HOLD)
        (new_calls demo_world
          (snd (poll (demo_long_button\<lparr>last_hold_tick := 1000\<rparr>, demo_world) (False, 1020))))
        = []
   \<and> last_state demo_pressed_button = STATE_PRESSED
   \<and> BUTTON_LONG_PRESS_TICKS \<le> 1000 - last_change_tick demo_pressed_button
   \<and> last_state (fst (poll (demo_pressed_button, demo_world) (False, 1000))) = STATE_LONG_PRESSED
   \<and> press_start_tick (fst (poll (demo_pressed_button, demo_world) (False, 1000))) = 1000
   \<and> last_hold_tick (fst (poll (demo_pressed_button, demo_world) (False, 1000))) = 1000"
proof -
  let ?held = "demo_long_button\<lparr>last_hold_tick := 1000\<rparr>"
  have long: "last_state demo_long_button = STATE_LONG_PRESSED"
    "last_state ?held = STATE_LONG_PRESSED"
    by (simp_all add: demo_defs)
  have fns: "read_pin_func demo_long_button \<noteq> NULL" "get_tick_func demo_long_button \<noteq> NULL"
    and fns': "read_pin_func ?held \<noteq> NULL" "get_tick_func ?held \<noteq> NULL"
    by (simp_all add: demo_defs NULL_def)
  have pr: "is_pressed demo_long_button False" "is_pressed ?held False"
    by (simp_all add: demo_defs is_pressed_def)
  have evs: "event (stage_cfg demo_long_button demo_world 0) \<noteq> BUTTON_EVENT_HOLD"
    "event (stage_cfg demo_long_button demo_world 1) \<noteq> BUTTON_EVENT_HOLD"
    by (simp_all add: demo_defs stage_cfg_def)
  have none: "\<forall>k<unat (count (stages demo_long_button)).
      event (stage_cfg demo_long_button demo_world k) \<noteq> BUTTON_EVENT_HOLD"
  proof (intro allI impI)
    fix k
    assume "k < unat (count (stages demo_long_button))"
    then have "k = 0 \<or> k = 1" by (auto simp: demo_defs)
    with evs show "event (stage_cfg demo_long_button demo_world k) \<noteq> BUTTON_EVENT_HOLD"
      by blast
  qed
  have none': "\<forall>k<unat (count (stages ?held)). event (stage_cfg ?held demo_world k) \<noteq> BUTTON_EVENT_HOLD"
    using none by (simp add: stage_cfg_def)
  have due: "hold_due demo_long_button 1000" "\<not> hold_due ?held 1020"
    by (simp_all add: demo_defs tick_defs)
  have calls: "calls_of demo_long_button [BUTTON_EVENT_HOLD] = [(3, BUTTON_EVENT_HOLD, 7)]"
    by (simp add: calls_of_def demo_defs NULL_def)
  have pressed: "last_state demo_pressed_button = STATE_PRESSED"
    "read_pin_func demo_pressed_button \<noteq> NULL" "get_tick_func demo_pressed_button \<noteq> NULL"
    "is_pressed demo_pressed_button False"
    "BUTTON_LONG_PRESS_TICKS \<le> 1000 - last_change_tick demo_pressed_button"
    by (simp_all add: demo_defs tick_defs is_pressed_def NULL_def)
  note fire = hold_repeat_cadence
    [OF long(1) fns pr(1), of 1000 demo_world 1060 demo_pressed_button]
  note skip = hold_repeat_cadence [OF long(2) fns' pr(2), of 1020 demo_world]
  have f1: "last_hold_tick (fst (poll (demo_long_button, demo_world) (False, 1000))) = 1000"
    using fire due(1) by simp
  have f2: "filter (\<lambda>c. fst (snd c) = BUTTON_EVENT_HOLD)
        (new_calls demo_world (snd (poll (demo_long_button, demo_world) (False, 1000))))
        = [(3, BUTTON_EVENT_HOLD, 7)]"
    using fire [THEN conjunct2, THEN conjunct2, THEN conjunct2, THEN conjunct2, THEN conjunct2,
        THEN conjunct2, THEN conjunct1, THEN mp, OF none] due(1)
    by (simp add: calls)
  have f3: "hold_due (fst (poll (demo_long_button, demo_world) (False, 1000))) 1060"
    using long(1) fns pr(1) due(1)
    by (simp add: long_pressed_poll long_pressed_fst) (simp add: demo_defs tick_defs)
  have f4: "BUTTON_HOLD_TICKS \<le> 1060 - 1000"
    using fire [THEN conjunct2, THEN conjunct2, THEN conjunct2, THEN conjunct2, THEN conjunct2,
        THEN conjunct2, THEN conjunct2, THEN conjunct1, THEN mp, OF conjI [OF due(1) f3]] .
  have f5: "last_state (fst (poll (demo_pressed_button, demo_world) (False, 1000))) = STATE_LONG_PRESSED
      \<and> press_start_tick (fst (poll (demo_pressed_button, demo_world) (False, 1000))) = 1000
      \<and> last_hold_tick (fst (poll (demo_pressed_button, demo_world) (False, 1000))) = 1000"
    using fire pressed by blast
  have s1: "last_hold_tick (fst (poll (?held, demo_world) (False, 1020))) = 1000"
    using skip due(2) by simp
  have s2: "filter (\<lambda>c. fst (snd c) = BUTTON_EVENT_HOLD)
        (new_calls demo_world (snd (poll (?held, demo_world) (False, 1020)))) = []"
    using skip [THEN conjunct2, THEN conjunct2, THEN conjunct2, THEN conjunct2, THEN conjunct2,
        THEN conjunct2, THEN conjunct1, THEN mp, OF none'] due(2)
    by simp
  from long(1) fns pr(1) evs due f1 f2 f3 f4 s1 s2 pressed(1,5) f5 show ?thesis
    by (intro conjI) blast+
qed

text \<open>
  The claim as it stands fails on a configuration the code accepts. With the single stage
  (1020, \<open>Hold\<close>) attached, the button is sampled pressed at ticks 0, 50, 1050 and 2050:
  the long press starts at tick 1050 and the hold-repeat scan fires at tick 2050. At the
  poll of tick 2070 the total hold time is 1020 and only 20 ticks have passed since
  \<open>last_hold_tick\<close>, fewer than \<open>HOLD_TICKS\<close>, yet the poll dispatches \<open>Hold\<close>: the stage
  scan does.
\<close>

theorem hold_repeat_cadence_counterexample:
  "Button_ConfigStages (Some demo_registered_button) 50 40 1 demo_world
        = (BUTTON_OK, Some hold_stage_button, demo_world)
   \<and> last_state (fst (polls (hold_stage_button, demo_world)
          [(False, 0), (False, 50), (False, 1050), (False, 2050)])) = STATE_LONG_PRESSED
   \<and> press_start_tick (fst (polls (hold_stage_button, demo_world)
          [(False, 0), (False, 50), (False, 1050), (False, 2050)])) = 1050
   \<and> last_hold_tick (fst (polls (hold_stage_button, demo_world)
          [(False, 0), (False, 50), (False, 1050), (False, 2050)])) = 2050
   \<and> is_pressed (fst (polls (hold_stage_button, demo_world)
          [(False, 0), (False, 50), (False, 1050), (False, 2050)])) False
   \<and> BUTTON_LONG_PRESS_TICKS \<le> (2070 :: u32) - 1050
   \<and> (2070 :: u32) - 2050 < BUTTON_HOLD_TICKS
   \<and> events_of (new_calls demo_world (snd (polls (hold_stage_button, demo_world)
          [(False, 0), (False, 50), (False, 1050), (False, 2050)])))
        = [BUTTON_EVENT_PRESSED, BUTTON_EVENT_LONG_PRESSED, BUTTON_EVENT_HOLD]
   \<and> new_calls
        (snd (polls (hold_stage_button, demo_world)
          [(False, 0), (False, 50), (False, 1050), (False, 2050)]))
        (snd (poll (polls (hold_stage_button, demo_world)
          [(False, 0), (False, 50), (False, 1050), (False, 2050)]) (False, 2070)))
        = [(3, BUTTON_EVENT_HOLD, 7)]"
proof -
  let ?s4 = "polls (hold_stage_button, demo_world)
      [(False, 0), (False, 50), (False, 1050), (False, 2050)]"
  have cfg: "Button_ConfigStages (Some demo_registered_button) 50 40 1 demo_world
        = (BUTTON_OK, Some hold_stage_button, demo_world)"
    by (simp add: Button_ConfigStages_def validate_stages_def validate_stages_from.simps
        demo_defs NULL_def)
  define b4 where "b4 = hold_stage_button\<lparr>last_state := STATE_LONG_PRESSED,
      last_change_tick := 1050, press_start_tick := 1050, last_hold_tick := 2050\<rparr>"
  define w4 where "w4 = snd ?s4"
  have "fst ?s4 = b4"
    by (simp add: b4_def poll_eval demo_defs tick_defs stage_defs NULL_def)
  then have s4: "?s4 = (b4, w4)"
    by (simp add: w4_def prod_eq_iff)
  have d4: "delivered w4 = [(3, BUTTON_EVENT_PRESSED, 7),
      (3, BUTTON_EVENT_LONG_PRESSED, 7), (3, BUTTON_EVENT_HOLD, 7)]"
    by (simp add: w4_def poll_eval demo_defs tick_defs stage_defs NULL_def)
  have l4: "\<not> latch_mem w4 40"
    by (simp add: w4_def poll_eval demo_defs tick_defs stage_defs NULL_def)
  have m4: "stage_mem w4 = demo_stage_mem"
    by (simp only: w4_def polls_fields snd_conv) (simp add: demo_world_def)
  have state: "last_state (fst ?s4) = STATE_LONG_PRESSED" "press_start_tick (fst ?s4) = 1050"
    "last_hold_tick (fst ?s4) = 2050" "is_pressed (fst ?s4) False"
    unfolding s4 by (simp_all add: b4_def is_pressed_def demo_defs)
  have ticks: "BUTTON_LONG_PRESS_TICKS \<le> (2070 :: u32) - 1050"
    "(2070 :: u32) - 2050 < BUTTON_HOLD_TICKS"
    by (simp_all add: tick_defs)
  have events: "events_of (new_calls demo_world (snd ?s4))
      = [BUTTON_EVENT_PRESSED, BUTTON_EVENT_LONG_PRESSED, BUTTON_EVENT_HOLD]"
    unfolding s4 by (simp add: new_calls_def d4 events_of_def demo_world_def)
  have "poll_events (b4, w4) (False, 2070) = [BUTTON_EVENT_HOLD]"
    using l4
    by (simp add: poll_events_def Let_def b4_def m4 stage_defs tick_defs demo_defs
        is_pressed_def NULL_def)
  then have last: "new_calls (snd ?s4) (snd (poll ?s4 (False, 2070))) = [(3, BUTTON_EVENT_HOLD, 7)]"
    unfolding s4 using new_calls_poll [of "(b4, w4)" "(False, 2070)"]
    by (simp add: calls_of_def b4_def demo_defs NULL_def)
  from cfg state ticks events last show ?thesis
    by (intro conjI)
qed

subsection \<open>C3: the debounce law\<close>

text \<open>
  Claim C3, as amended. From \<open>Idle\<close>, let the first pressed sample come at tick \<open>t0\<close>,
  followed by any samples taken before \<open>DEBOUNCE_TICKS\<close> have elapsed, and then by a sample
  at or after \<open>DEBOUNCE_TICKS\<close> elapsed. If that sample is not pressed, the state is back to
  \<open>Idle\<close> and nothing at all has been dispatched: no \<open>Pressed\<close> event for this press. If
  it is pressed, the state is \<open>Pressed\<close> and exactly one \<open>Pressed\<close> event has been
  dispatched; while the button stays held after that, the only further \<open>Pressed\<close> events
  are those of fired stages whose configured event is \<open>Pressed\<close>, so when no configured
  stage carries the event \<open>Pressed\<close>, exactly one \<open>Pressed\<close> event is dispatched for the
  press.
\<close>

theorem debounce_law:
  assumes fns: "read_pin_func b \<noteq> NULL" "get_tick_func b \<noteq> NULL"
    and idle: "last_state b = STATE_IDLE"
    and first: "is_pressed b p0"
    and early: "\<forall>x\<in>set early. snd x - t0 < BUTTON_DEBOUNCE_TICKS"
    and late: "BUTTON_DEBOUNCE_TICKS \<le> t1 - t0"
    and held: "\<forall>x\<in>set rest. is_pressed b (fst x)"
  shows "(\<not> is_pressed b p1 \<longrightarrow>
        last_state (fst (polls (b, w) ((p0, t0) # early @ [(p1, t1)]))) = STATE_IDLE
        \<and> snd (polls (b, w) ((p0, t0) # early @ [(p1, t1)])) = w)
    \<and> (is_pressed b p1 \<longrightarrow>
        last_state (fst (polls (b, w) ((p0, t0) # early @ [(p1, t1)]))) = STATE_PRESSED
        \<and> new_calls w (snd (polls (b, w) ((p0, t0) # early @ [(p1, t1)])))
            = calls_of b [BUTTON_EVENT_PRESSED]
        \<and> filter (\<lambda>c. fst (snd c) = BUTTON_EVENT_PRESSED)
              (new_calls w (snd (polls (b, w) (((p0, t0) # early @ [(p1, t1)]) @ rest))))
            = calls_of b
                (BUTTON_EVENT_PRESSED
                 # filter (\<lambda>v. v = BUTTON_EVENT_PRESSED)
                     (stage_events b w
                        (stage_firings (b, w) (((p0, t0) # early @ [(p1, t1)]) @ rest))))
        \<and> ((\<forall>k<unat (count (stages b)). event (stage_cfg b w k) \<noteq> BUTTON_EVENT_PRESSED) \<longrightarrow>
            filter (\<lambda>c. fst (snd c) = BUTTON_EVENT_PRESSED)
              (new_calls w (snd (polls (b, w) (((p0, t0) # early @ [(p1, t1)]) @ rest))))
            = calls_of b [BUTTON_EVENT_PRESSED]))"
proof -
  let ?pre = "(p0, t0) # early @ [(p1, t1)]"
  note run = debounce_run [OF fns idle first early late, of w p1]
  have short: "last_state (fst (polls (b, w) ?pre)) = STATE_IDLE \<and> snd (polls (b, w) ?pre) = w"
    if "\<not> is_pressed b p1"
    using that unfolding run(1) by simp
  have long: "last_state (fst (polls (b, w) ?pre)) = STATE_PRESSED
      \<and> new_calls w (snd (polls (b, w) ?pre)) = calls_of b [BUTTON_EVENT_PRESSED]
      \<and> filter (\<lambda>c. fst (snd c) = BUTTON_EVENT_PRESSED)
            (new_calls w (snd (polls (b, w) (?pre @ rest))))
          = calls_of b
              (BUTTON_EVENT_PRESSED
               # filter (\<lambda>v. v = BUTTON_EVENT_PRESSED)
                   (stage_events b w (stage_firings (b, w) (?pre @ rest))))
      \<and> ((\<forall>k<unat (count (stages b)). event (stage_cfg b w k) \<noteq> BUTTON_EVENT_PRESSED) \<longrightarrow>
          filter (\<lambda>c. fst (snd c) = BUTTON_EVENT_PRESSED)
            (new_calls w (snd (polls (b, w) (?pre @ rest))))
          = calls_of b [BUTTON_EVENT_PRESSED])"
    if pressed: "is_pressed b p1"
  proof -
    define b2 where "b2 = b\<lparr>last_state := STATE_PRESSED, last_change_tick := t1\<rparr>"
    define w2 where "w2 = w\<lparr>delivered := delivered w @ calls_of b [BUTTON_EVENT_PRESSED]\<rparr>"
    have s2: "polls (b, w) ?pre = (b2, w2)"
      using pressed by (simp only: run(1) b2_def w2_def if_True)
    have b2: "read_pin_func b2 \<noteq> NULL" "get_tick_func b2 \<noteq> NULL"
      "last_state b2 = STATE_PRESSED \<or> last_state b2 = STATE_LONG_PRESSED"
      "is_pressed b2 = is_pressed b"
      using fns by (simp_all add: b2_def is_pressed_def fun_eq_iff)
    have ev2: "stage_events b2 w2 = stage_events b w"
      by (rule stage_events_fields) (simp_all add: b2_def w2_def)
    from held have held2: "\<forall>x\<in>set rest. is_pressed b2 (fst x)"
      by (simp add: b2(4))
    have state: "last_state (fst (polls (b, w) ?pre)) = STATE_PRESSED"
      by (simp only: s2) (simp add: b2_def)
    have one: "new_calls w (snd (polls (b, w) ?pre)) = calls_of b [BUTTON_EVENT_PRESSED]"
      by (simp only: s2) (simp add: w2_def new_calls_def)
    from held_run [OF b2(1-3) held2, of BUTTON_EVENT_PRESSED w2]
    have rest_events: "filter (\<lambda>v. v = BUTTON_EVENT_PRESSED) (run_events (b2, w2) rest)
        = filter (\<lambda>v. v = BUTTON_EVENT_PRESSED) (stage_events b w (stage_firings (b2, w2) rest))"
      by (simp add: ev2)
    have events: "run_events (b, w) (?pre @ rest) = BUTTON_EVENT_PRESSED # run_events (b2, w2) rest"
      using pressed by (simp only: run_events_append run(2) s2) simp
    have firings: "stage_firings (b, w) (?pre @ rest) = stage_firings (b2, w2) rest"
      by (simp only: stage_firings_append run(3) s2) simp
    have whole: "filter (\<lambda>c. fst (snd c) = BUTTON_EVENT_PRESSED)
            (new_calls w (snd (polls (b, w) (?pre @ rest))))
          = calls_of b
              (BUTTON_EVENT_PRESSED
               # filter (\<lambda>v. v = BUTTON_EVENT_PRESSED)
                   (stage_events b w (stage_firings (b, w) (?pre @ rest))))"
      using new_calls_polls [of "(b, w)" "?pre @ rest"]
      by (simp only: fst_conv snd_conv calls_of_filter events firings)
         (simp add: rest_events)
    have none: "filter (\<lambda>c. fst (snd c) = BUTTON_EVENT_PRESSED)
            (new_calls w (snd (polls (b, w) (?pre @ rest))))
          = calls_of b [BUTTON_EVENT_PRESSED]"
      if "\<forall>k<unat (count (stages b)). event (stage_cfg b w k) \<noteq> BUTTON_EVENT_PRESSED"
      unfolding whole by (simp only: no_stage_event [OF that])
    from state one whole none show ?thesis
      by blast
  qed
  from short long show ?thesis
    by blast
qed

text \<open>
  The witness, on the two-stage button (no stage carries \<open>Pressed\<close>): first pressed
  sample at tick 10, another sample at tick 30, and at tick 60 either a not-pressed
  sample (back to \<open>Idle\<close>, the world untouched) or a pressed one (state \<open>Pressed\<close>, one
  \<open>Pressed\<close> event, and still only one after a further held poll at tick 500).
\<close>

theorem debounce_law_witness:
  "read_pin_func demo_staged_button \<noteq> NULL \<and> get_tick_func demo_staged_button \<noteq> NULL
   \<and> last_state demo_staged_button = STATE_IDLE
   \<and> is_pressed demo_staged_button False \<and> \<not> is_pressed demo_staged_button True
   \<and> (30 :: u32) - 10 < BUTTON_DEBOUNCE_TICKS \<and> BUTTON_DEBOUNCE_TICKS \<le> 60 - 10
   \<and> event (stage_cfg demo_staged_button demo_world 0) \<noteq> BUTTON_EVENT_PRESSED
   \<and> event (stage_cfg demo_staged_button demo_world 1) \<noteq> BUTTON_EVENT_PRESSED
   \<and> last_state (fst (polls (demo_staged_button, demo_world)
          ((False, 10) # [(False, 30)] @ [(True, 60)]))) = STATE_IDLE
   \<and> snd (polls (demo_staged_button, demo_world)
          ((False, 10) # [(False, 30)] @ [(True, 60)])) = demo_world
   \<and> last_state (fst (polls (demo_staged_button, demo_world)
          ((False, 10) # [(False, 30)] @ [(False, 60)]))) = STATE_PRESSED
   \<and> new_calls demo_world (snd (polls (demo_staged_button, demo_world)
          ((False, 10) # [(False, 30)] @ [(False, 60)]))) = [(3, BUTTON_EVENT_PRESSED, 7)]
   \<and> filter (\<lambda>c. fst (snd c) = BUTTON_EVENT_PRESSED)
        (new_calls demo_world (snd (polls (demo_staged_button, demo_world)
          (((False, 10) # [(False, 30)] @ [(False, 60)]) @ [(False, 500)]))))
        = [(3, BUTTON_EVENT_PRESSED, 7)]"
proof -
  have fns: "read_pin_func demo_staged_button \<noteq> NULL" "get_tick_func demo_staged_button \<noteq> NULL"
    by (simp_all add: demo_defs NULL_def)
  have idle: "last_state demo_staged_button = STATE_IDLE"
    by (simp add: demo_defs)
  have pr: "is_pressed demo_staged_button False" "\<not> is_pressed demo_staged_button True"
    by (simp_all add: demo_defs is_pressed_def)
  have ticks: "(30 :: u32) - 10 < BUTTON_DEBOUNCE_TICKS" "BUTTON_DEBOUNCE_TICKS \<le> 60 - 10"
    by (simp_all add: BUTTON_DEBOUNCE_TICKS_def)
  have early: "\<forall>x\<in>set [(False, 30 :: u32)]. snd x - 10 < BUTTON_DEBOUNCE_TICKS"
    using ticks(1) by simp
  have held: "\<forall>x\<in>set [(False, 500 :: u32)]. is_pressed demo_staged_button (fst x)"
    using pr(1) by simp
  have evs: "event (stage_cfg demo_staged_button demo_world 0) \<noteq> BUTTON_EVENT_PRESSED"
    "event (stage_cfg demo_staged_button demo_world 1) \<noteq> BUTTON_EVENT_PRESSED"
    by (simp_all add: demo_defs stage_cfg_def)
  have none: "\<forall>k<unat (count (stages demo_staged_button)).
      event (stage_cfg demo_staged_button demo_world k) \<noteq> BUTTON_EVENT_PRESSED"
  proof (intro allI impI)
    fix k
    assume "k < unat (count (stages demo_staged_button))"
    then have "k = 0 \<or> k = 1" by (auto simp: demo_defs)
    with evs show "event (stage_cfg demo_staged_button demo_world k) \<noteq> BUTTON_EVENT_PRESSED"
      by blast
  qed
  have calls: "calls_of demo_staged_button [BUTTON_EVENT_PRESSED] = [(3, BUTTON_EVENT_PRESSED, 7)]"
    by (simp add: calls_of_def demo_defs NULL_def)
  note short = debounce_law [OF fns idle pr(1) early ticks(2) held, of True demo_world,
      THEN conjunct1, THEN mp, OF pr(2)]
  note long = debounce_law [OF fns idle pr(1) early ticks(2) held, of False demo_world,
      THEN conjunct2, THEN mp, OF pr(1)]
  have l1: "last_state (fst (polls (demo_staged_button, demo_world)
          ((False, 10) # [(False, 30)] @ [(False, 60)]))) = STATE_PRESSED"
    using long by blast
  have l2: "new_calls demo_world (snd (polls (demo_staged_button, demo_world)
          ((False, 10) # [(False, 30)] @ [(False, 60)]))) = [(3, BUTTON_EVENT_PRESSED, 7)]"
    using long [THEN conjunct2, THEN conjunct1] by (simp only: calls)
  have l3: "filter (\<lambda>c. fst (snd c) = BUTTON_EVENT_PRESSED)
        (new_calls demo_world (snd (polls (demo_staged_button, demo_world)
          (((False, 10) # [(False, 30)] @ [(False, 60)]) @ [(False, 500)]))))
        = [(3, BUTTON_EVENT_PRESSED, 7)]"
    using long [THEN conjunct2, THEN conjunct2, THEN conjunct2, THEN mp, OF none]
    by (simp only: calls)
  from fns idle pr ticks evs short l1 l2 l3 show ?thesis
    by (intro conjI) blast+
qed

text \<open>
  The claim as it stands fails on a configuration the code accepts. With the single stage
  (100, \<open>Pressed\<close>) attached, the button is sampled pressed at ticks 0, 50, 1050 and 1200:
  the press is validated at tick 50 (one \<open>Pressed\<close> event), becomes a long press at tick
  1050, and at tick 1200 the stage scan dispatches \<open>Pressed\<close> a second time for the same
  press.
\<close>

theorem debounce_law_counterexample:
  "Button_ConfigStages (Some demo_registered_button) 60 40 1 demo_world
        = (BUTTON_OK, Some pressed_stage_button, demo_world)
   \<and> last_state pressed_stage_button = STATE_IDLE
   \<and> is_pressed pressed_stage_button False
   \<and> last_state (fst (polls (pressed_stage_button, demo_world) [(False, 0), (False, 50)]))
        = STATE_PRESSED
   \<and> events_of (new_calls demo_world
          (snd (polls (pressed_stage_button, demo_world)
             [(False, 0), (False, 50), (False, 1050), (False, 1200)])))
        = [BUTTON_EVENT_PRESSED, BUTTON_EVENT_LONG_PRESSED, BUTTON_EVENT_PRESSED]"
proof -
  have cfg: "Button_ConfigStages (Some demo_registered_button) 60 40 1 demo_world
        = (BUTTON_OK, Some pressed_stage_button, demo_world)"
    by (simp add: Button_ConfigStages_def validate_stages_def validate_stages_from.simps
        demo_defs NULL_def)
  have idle: "last_state pressed_stage_button = STATE_IDLE"
    and pr: "is_pressed pressed_stage_button False"
    by (simp_all add: demo_defs is_pressed_def)
  have validated:
    "last_state (fst (polls (pressed_stage_button, demo_world) [(False, 0), (False, 50)]))
        = STATE_PRESSED"
    by (simp add: poll_eval demo_defs tick_defs NULL_def)
  have "delivered (snd (polls (pressed_stage_button, demo_world)
             [(False, 0), (False, 50), (False, 1050), (False, 1200)]))
      = [(3, BUTTON_EVENT_PRESSED, 7), (3, BUTTON_EVENT_LONG_PRESSED, 7),
         (3, BUTTON_EVENT_PRESSED, 7)]"
    by (simp add: poll_eval demo_defs tick_defs stage_defs NULL_def)
  then have events: "events_of (new_calls demo_world
          (snd (polls (pressed_stage_button, demo_world)
             [(False, 0), (False, 50), (False, 1050), (False, 1200)])))
        = [BUTTON_EVENT_PRESSED, BUTTON_EVENT_LONG_PRESSED, BUTTON_EVENT_PRESSED]"
    by (simp only: new_calls_def) (simp add: events_of_def demo_world_def)
  from cfg idle pr validated events show ?thesis
    by (intro conjI)
qed

subsection \<open>C4: one release per press cycle\<close>

text \<open>
  Claim C4, as amended. In every press cycle the release is dispatched exactly once, by
  the poll that observes the not-pressed sample, whether the state is then \<open>Pressed\<close> or
  \<open>LongPressed\<close>, and that same poll returns the state to \<open>Idle\<close>. Over the whole cycle
  the \<open>Released\<close> events dispatched are that one and, before it, one for every fired stage
  whose configured event is \<open>Released\<close>; so when no configured stage carries the event
  \<open>Released\<close>, exactly one \<open>Released\<close> event is dispatched per press cycle.
\<close>

theorem released_once_per_press_cycle:
  assumes fns: "read_pin_func b \<noteq> NULL" "get_tick_func b \<noteq> NULL"
    and state: "last_state b = STATE_PRESSED \<or> last_state b = STATE_LONG_PRESSED"
    and held: "\<forall>x\<in>set xs. is_pressed b (fst x)"
    and released: "\<not> is_pressed b pin"
  shows "last_state (fst (polls (b, w) (xs @ [(pin, t)]))) = STATE_IDLE
    \<and> new_calls (snd (polls (b, w) xs)) (snd (polls (b, w) (xs @ [(pin, t)])))
        = calls_of b [BUTTON_EVENT_RELEASED]
    \<and> filter (\<lambda>c. fst (snd c) = BUTTON_EVENT_RELEASED)
          (new_calls w (snd (polls (b, w) (xs @ [(pin, t)]))))
        = calls_of b
            (filter (\<lambda>v. v = BUTTON_EVENT_RELEASED) (stage_events b w (stage_firings (b, w) xs))
             @ [BUTTON_EVENT_RELEASED])
    \<and> ((\<forall>k<unat (count (stages b)). event (stage_cfg b w k) \<noteq> BUTTON_EVENT_RELEASED) \<longrightarrow>
        filter (\<lambda>c. fst (snd c) = BUTTON_EVENT_RELEASED)
          (new_calls w (snd (polls (b, w) (xs @ [(pin, t)]))))
        = calls_of b [BUTTON_EVENT_RELEASED])"
proof -
  obtain b1 w1 where s1: "polls (b, w) xs = (b1, w1)"
    by (cases "polls (b, w) xs") auto
  have same: "read_pin_func b1 = read_pin_func b" "get_tick_func b1 = get_tick_func b"
    "active_level b1 = active_level b" "callback b1 = callback b"
    "context_ptr b1 = context_ptr b"
    using polls_fields [of "(b, w)" xs] by (simp_all add: s1)
  have calls1: "calls_of b1 = calls_of b"
    using same(4,5) by (rule calls_of_fields)
  have "is_pressed b1 = is_pressed b"
    using same(3) by (rule is_pressed_fields)
  with released have rel1: "\<not> is_pressed b1 pin"
    by simp
  from held_run [OF fns state held, of BUTTON_EVENT_RELEASED w]
  have state1: "last_state b1 = STATE_PRESSED \<or> last_state b1 = STATE_LONG_PRESSED"
    and held_events: "filter (\<lambda>v. v = BUTTON_EVENT_RELEASED) (run_events (b, w) xs)
      = filter (\<lambda>v. v = BUTTON_EVENT_RELEASED) (stage_events b w (stage_firings (b, w) xs))"
    by (simp_all add: s1)
  have fns1: "read_pin_func b1 \<noteq> NULL" "get_tick_func b1 \<noteq> NULL"
    using fns by (simp_all add: same)
  have last: "polls (b, w) (xs @ [(pin, t)]) = poll (b1, w1) (pin, t)"
    by (simp add: polls_append s1)
  have idle: "last_state (fst (polls (b, w) (xs @ [(pin, t)]))) = STATE_IDLE"
    unfolding last using fns1 state1 rel1 by (rule release_poll(1))
  have ev: "poll_events (b1, w1) (pin, t) = [BUTTON_EVENT_RELEASED]"
    using fns1 state1 rel1 by (rule release_poll(2))
  have one: "new_calls (snd (polls (b, w) xs)) (snd (polls (b, w) (xs @ [(pin, t)])))
      = calls_of b [BUTTON_EVENT_RELEASED]"
    using new_calls_poll [of "(b1, w1)" "(pin, t)"] by (simp add: last s1 ev calls1)
  have "run_events (b, w) (xs @ [(pin, t)]) = run_events (b, w) xs @ [BUTTON_EVENT_RELEASED]"
    by (simp add: run_events_append s1 ev)
  then have whole: "filter (\<lambda>c. fst (snd c) = BUTTON_EVENT_RELEASED)
          (new_calls w (snd (polls (b, w) (xs @ [(pin, t)]))))
        = calls_of b
            (filter (\<lambda>v. v = BUTTON_EVENT_RELEASED) (stage_events b w (stage_firings (b, w) xs))
             @ [BUTTON_EVENT_RELEASED])"
    using new_calls_polls [of "(b, w)" "xs @ [(pin, t)]"]
    by (simp add: calls_of_filter held_events)
  have none: "filter (\<lambda>c. fst (snd c) = BUTTON_EVENT_RELEASED)
          (new_calls w (snd (polls (b, w) (xs @ [(pin, t)]))))
        = calls_of b [BUTTON_EVENT_RELEASED]"
    if "\<forall>k<unat (count (stages b)). event (stage_cfg b w k) \<noteq> BUTTON_EVENT_RELEASED"
    unfolding whole by (simp only: no_stage_event [OF that] append_Nil)
  from idle one whole none show ?thesis
    by blast
qed

text \<open>
  The witness: the two-stage button, none of whose stages carries \<open>Released\<close>, released
  from state \<open>Pressed\<close> at tick 600 after one held poll, and released from state
  \<open>LongPressed\<close> at tick 200 after a held poll that fired stage 0.
\<close>

theorem released_once_per_press_cycle_witness:
  "read_pin_func demo_pressed_button \<noteq> NULL \<and> get_tick_func demo_pressed_button \<noteq> NULL
   \<and> last_state demo_pressed_button = STATE_PRESSED
   \<and> last_state demo_long_button = STATE_LONG_PRESSED
   \<and> is_pressed demo_pressed_button False \<and> \<not> is_pressed demo_pressed_button True
   \<and> event (stage_cfg demo_pressed_button demo_world 0) \<noteq> BUTTON_EVENT_RELEASED
   \<and> event (stage_cfg demo_pressed_button demo_world 1) \<noteq> BUTTON_EVENT_RELEASED
   \<and> last_state (fst (polls (demo_pressed_button, demo_world) ([(False, 500)] @ [(True, 600)])))
        = STATE_IDLE
   \<and> filter (\<lambda>c. fst (snd c) = BUTTON_EVENT_RELEASED)
        (new_calls demo_world
          (snd (polls (demo_pressed_button, demo_world) ([(False, 500)] @ [(True, 600)]))))
        = [(3, BUTTON_EVENT_RELEASED, 7)]
   \<and> last_state (fst (polls (demo_long_button, demo_world) ([(False, 150)] @ [(True, 200)])))
        = STATE_IDLE
   \<and> stage_firings (demo_long_button, demo_world) [(False, 150)] = [0]
   \<and> filter (\<lambda>c. fst (snd c) = BUTTON_EVENT_RELEASED)
        (new_calls demo_world
          (snd (polls (demo_long_button, demo_world) ([(False, 150)] @ [(True, 200)]))))
        = [(3, BUTTON_EVENT_RELEASED, 7)]"
proof -
  have fns: "read_pin_func demo_pressed_button \<noteq> NULL" "get_tick_func demo_pressed_button \<noteq> NULL"
    and fns': "read_pin_func demo_long_button \<noteq> NULL" "get_tick_func demo_long_button \<noteq> NULL"
    by (simp_all add: demo_defs NULL_def)
  have st: "last_state demo_pressed_button = STATE_PRESSED"
    and st': "last_state demo_long_button = STATE_LONG_PRESSED"
    by (simp_all add: demo_defs)
  have pr: "is_pressed demo_pressed_button False" "\<not> is_pressed demo_pressed_button True"
    and pr': "is_pressed demo_long_button False" "\<not> is_pressed demo_long_button True"
    by (simp_all add: demo_defs is_pressed_def)
  have evs: "event (stage_cfg demo_pressed_button demo_world 0) \<noteq> BUTTON_EVENT_RELEASED"
    "event (stage_cfg demo_pressed_button demo_world 1) \<noteq> BUTTON_EVENT_RELEASED"
    and evs': "event (stage_cfg demo_long_button demo_world 0) \<noteq> BUTTON_EVENT_RELEASED"
    "event (stage_cfg demo_long_button demo_world 1) \<noteq> BUTTON_EVENT_RELEASED"
    by (simp_all add: demo_defs stage_cfg_def)
  have two: "k = 0 \<or> k = 1" if "k < unat (2 :: u8)" for k
    using that by auto
  have none: "\<forall>k<unat (count (stages demo_pressed_button)).
      event (stage_cfg demo_pressed_button demo_world k) \<noteq> BUTTON_EVENT_RELEASED"
  proof (intro allI impI)
    fix k
    assume "k < unat (count (stages demo_pressed_button))"
    then have "k < unat (2 :: u8)" by (simp add: demo_defs)
    with two evs show "event (stage_cfg demo_pressed_button demo_world k) \<noteq> BUTTON_EVENT_RELEASED"
      by blast
  qed
  have none': "\<forall>k<unat (count (stages demo_long_button)).
      event (stage_cfg demo_long_button demo_world k) \<noteq> BUTTON_EVENT_RELEASED"
  proof (intro allI impI)
    fix k
    assume "k < unat (count (stages demo_long_button))"
    then have "k < unat (2 :: u8)" by (simp add: demo_defs)
    with two evs' show "event (stage_cfg demo_long_button demo_world k) \<noteq> BUTTON_EVENT_RELEASED"
      by blast
  qed
  have calls: "calls_of demo_pressed_button [BUTTON_EVENT_RELEASED] = [(3, BUTTON_EVENT_RELEASED, 7)]"
    "calls_of demo_long_button [BUTTON_EVENT_RELEASED] = [(3, BUTTON_EVENT_RELEASED, 7)]"
    by (simp_all add: calls_of_def demo_defs NULL_def)
  have held: "\<forall>x\<in>set [(False, 500)]. is_pressed demo_pressed_button (fst x)"
    and held': "\<forall>x\<in>set [(False, 150)]. is_pressed demo_long_button (fst x)"
    using pr pr' by simp_all
  note from_pressed = released_once_per_press_cycle
    [OF fns disjI1 [OF st] held pr(2), of demo_world 600]
  note from_long = released_once_per_press_cycle
    [OF fns' disjI2 [OF st'] held' pr'(2), of demo_world 200]
  have idle:
    "last_state (fst (polls (demo_pressed_button, demo_world) ([(False, 500)] @ [(True, 600)])))
        = STATE_IDLE"
    "last_state (fst (polls (demo_long_button, demo_world) ([(False, 150)] @ [(True, 200)])))
        = STATE_IDLE"
    using from_pressed from_long by blast+
  have once:
    "filter (\<lambda>c. fst (snd c) = BUTTON_EVENT_RELEASED)
        (new_calls demo_world
          (snd (polls (demo_pressed_button, demo_world) ([(False, 500)] @ [(True, 600)]))))
        = [(3, BUTTON_EVENT_RELEASED, 7)]"
    "filter (\<lambda>c. fst (snd c) = BUTTON_EVENT_RELEASED)
        (new_calls demo_world
          (snd (polls (demo_long_button, demo_world) ([(False, 150)] @ [(True, 200)]))))
        = [(3, BUTTON_EVENT_RELEASED, 7)]"
    using from_pressed [THEN conjunct2, THEN conjunct2, THEN conjunct2, THEN mp, OF none]
      from_long [THEN conjunct2, THEN conjunct2, THEN conjunct2, THEN mp, OF none']
    by (simp_all only: calls)
  have fired: "stage_firings (demo_long_button, demo_world) [(False, 150)] = [0]"
    using st' pr' by (simp add: demo_defs stage_defs NULL_def upt_two)
  from fns st st' pr evs idle once fired show ?thesis
    by (intro conjI)
qed

text \<open>
  The claim as it stands fails on a configuration the code accepts. After
  \<^verbatim>\<open>Button_Init\<close>, \<^verbatim>\<open>Button_RegisterHandler\<close> and \<^verbatim>\<open>Button_ConfigStages\<close> with the single
  stage (100, \<open>Released\<close>), the press is validated at tick 50, becomes a long press at
  tick 1050, the stage fires at tick 1200 and the button is released at tick 1300: the
  callback receives \<open>Released\<close> twice in this one press cycle.
\<close>

theorem released_once_per_press_cycle_counterexample:
  "Button_Init (Some demo_button) 4 BUTTON_ACTIVE_LOW 1 2 0 = (BUTTON_OK, Some demo_button)
   \<and> Button_RegisterHandler (Some demo_button) 3 7 = (BUTTON_OK, Some demo_registered_button)
   \<and> Button_ConfigStages (Some demo_registered_button) 70 40 1 demo_world
        = (BUTTON_OK, Some released_stage_button, demo_world)
   \<and> last_state (fst (polls (released_stage_button, demo_world) [(False, 0), (False, 50)]))
        = STATE_PRESSED
   \<and> events_of (new_calls demo_world
          (snd (polls (released_stage_button, demo_world)
             [(False, 0), (False, 50), (False, 1050), (False, 1200), (True, 1300)])))
        = [BUTTON_EVENT_PRESSED, BUTTON_EVENT_LONG_PRESSED,
           BUTTON_EVENT_RELEASED, BUTTON_EVENT_RELEASED]
   \<and> last_state (fst (polls (released_stage_button, demo_world)
          [(False, 0), (False, 50), (False, 1050), (False, 1200), (True, 1300)]))
        = STATE_IDLE"
proof -
  have init: "Button_Init (Some demo_button) 4 BUTTON_ACTIVE_LOW 1 2 0 = (BUTTON_OK, Some demo_button)"
    by (simp add: Button_Init_def demo_defs NULL_def)
  have reg: "Button_RegisterHandler (Some demo_button) 3 7 = (BUTTON_OK, Some demo_registered_button)"
    by (simp add: Button_RegisterHandler_def demo_defs)
  have cfg: "Button_ConfigStages (Some demo_registered_button) 70 40 1 demo_world
        = (BUTTON_OK, Some released_stage_button, demo_world)"
    by (simp add: Button_ConfigStages_def validate_stages_def validate_stages_from.simps
        demo_defs NULL_def)
  have validated:
    "last_state (fst (polls (released_stage_button, demo_world) [(False, 0), (False, 50)]))
        = STATE_PRESSED"
    by (simp add: poll_eval demo_defs tick_defs NULL_def)
  have run: "polls (released_stage_button, demo_world)
      [(False, 0), (False, 50), (False, 1050), (False, 1200), (True, 1300)]
    = (released_stage_button\<lparr>last_change_tick := 1050, press_start_tick := 1050,
          last_hold_tick := 1050, last_state := STATE_IDLE\<rparr>,
       demo_world\<lparr>latch_mem := latch_mem (snd (polls (released_stage_button, demo_world)
            [(False, 0), (False, 50), (False, 1050), (False, 1200), (True, 1300)])),
         delivered := [(3, BUTTON_EVENT_PRESSED, 7), (3, BUTTON_EVENT_LONG_PRESSED, 7),
           (3, BUTTON_EVENT_RELEASED, 7), (3, BUTTON_EVENT_RELEASED, 7)]\<rparr>)"
    by (simp add: poll_eval demo_defs tick_defs stage_defs NULL_def)
  have events: "events_of (new_calls demo_world
          (snd (polls (released_stage_button, demo_world)
             [(False, 0), (False, 50), (False, 1050), (False, 1200), (True, 1300)])))
        = [BUTTON_EVENT_PRESSED, BUTTON_EVENT_LONG_PRESSED,
           BUTTON_EVENT_RELEASED, BUTTON_EVENT_RELEASED]"
    by (subst run) (simp add: events_of_def new_calls_def demo_defs)
  have idle: "last_state (fst (polls (released_stage_button, demo_world)
          [(False, 0), (False, 50), (False, 1050), (False, 1200), (True, 1300)]))
        = STATE_IDLE"
    by (subst run) simp
  from init reg cfg validated events idle show ?thesis
    by (intro conjI)
qed

subsection \<open>C5: the life of a stage latch\<close>

text \<open>
  Claim C5. A stage latch is set only by the stage scan in state \<open>LongPressed\<close>: a poll in
  any other state leaves every latch as it is, \<^verbatim>\<open>Button_ConfigStages\<close> leaves the world as
  it is (the other operations have no access to it), and a poll in \<open>LongPressed\<close> with the
  button pressed sets exactly the latches of the due stages and clears none. A latch is
  cleared only by the release from \<open>LongPressed\<close>: that poll returns to \<open>Idle\<close>, dispatches
  \<open>Released\<close>, clears every latch of the array and touches no other cell. Therefore, after
  that release and any polls made before the state is \<open>LongPressed\<close> again, every latch is
  still clear, and a scan then finds due every configured stage whose threshold is
  reached: the next press cycle fires the stages from scratch.
\<close>

theorem latch_lifecycle:
  assumes fns: "read_pin_func b \<noteq> NULL" "get_tick_func b \<noteq> NULL"
  shows "(last_state b \<noteq> STATE_LONG_PRESSED \<longrightarrow>
        latch_mem (snd (poll (b, w) (pin, t))) = latch_mem w)
    \<and> snd (snd (Button_ConfigStages (Some b) cfgs lats cnt w)) = w
    \<and> (last_state b = STATE_LONG_PRESSED \<and> is_pressed b pin \<longrightarrow>
        (\<forall>a. latch_mem (snd (poll (b, w) (pin, t))) a \<longleftrightarrow>
              latch_mem w a
              \<or> (\<exists>k\<in>set (due_stages b w (t - press_start_tick b)). a = latches (stages b) + k)))
    \<and> (last_state b = STATE_LONG_PRESSED \<and> \<not> is_pressed b pin \<longrightarrow>
        last_state (fst (poll (b, w) (pin, t))) = STATE_IDLE
        \<and> new_calls w (snd (poll (b, w) (pin, t))) = calls_of b [BUTTON_EVENT_RELEASED]
        \<and> (\<forall>a. latch_mem (snd (poll (b, w) (pin, t))) a \<longleftrightarrow>
              latch_mem w a
              \<and> \<not> (latches (stages b) \<noteq> NULL \<and> latches (stages b) \<le> a
                    \<and> a < latches (stages b) + unat (count (stages b))))
        \<and> (latches (stages b) \<noteq> NULL \<longrightarrow>
            (\<forall>k<unat (count (stages b)).
                \<not> stage_latch (fst (poll (b, w) (pin, t))) (snd (poll (b, w) (pin, t))) k)))
    \<and> (last_state b = STATE_LONG_PRESSED \<and> \<not> is_pressed b pin
        \<and> configs (stages b) \<noteq> NULL \<and> latches (stages b) \<noteq> NULL
        \<and> no_long_poll (poll (b, w) (pin, t)) ys \<longrightarrow>
        due_stages (fst (polls (poll (b, w) (pin, t)) ys)) (snd (polls (poll (b, w) (pin, t)) ys)) tot
          = filter (\<lambda>k. threshold (stage_cfg b w k) \<le> tot) [0..<unat (count (stages b))])"
proof -
  let ?s1 = "poll (b, w) (pin, t)"
  let ?n = "unat (count (stages b))"
  have c1: "latch_mem (snd ?s1) = latch_mem w" if "last_state b \<noteq> STATE_LONG_PRESSED"
    using that by (rule poll_latch_other)
  have c2: "snd (snd (Button_ConfigStages (Some b) cfgs lats cnt w)) = w"
    by (simp add: Button_ConfigStages_def)
  have c3: "\<forall>a. latch_mem (snd ?s1) a \<longleftrightarrow>
      latch_mem w a
      \<or> (\<exists>k\<in>set (due_stages b w (t - press_start_tick b)). a = latches (stages b) + k)"
    if "last_state b = STATE_LONG_PRESSED \<and> is_pressed b pin"
    using that fns by (simp add: long_pressed_poll long_pressed_latch_due)
  have release: "?s1 = handle_state_long b False t w"
    if "last_state b = STATE_LONG_PRESSED \<and> \<not> is_pressed b pin"
    using that fns by (simp add: poll_handlers)
  have cleared: "\<forall>a. latch_mem (snd ?s1) a \<longleftrightarrow>
        latch_mem w a
        \<and> \<not> (latches (stages b) \<noteq> NULL \<and> latches (stages b) \<le> a
              \<and> a < latches (stages b) + ?n)"
    if "last_state b = STATE_LONG_PRESSED \<and> \<not> is_pressed b pin"
    by (simp only: release [OF that] long_released_latch_mem) auto
  have clear: "\<forall>k<?n. \<not> stage_latch (fst ?s1) (snd ?s1) k"
    if "last_state b = STATE_LONG_PRESSED \<and> \<not> is_pressed b pin" and "latches (stages b) \<noteq> NULL"
    using cleared [OF that(1)] that(2) by (simp add: stage_latch_def poll_fields)
  have c4: "last_state (fst ?s1) = STATE_IDLE
      \<and> new_calls w (snd ?s1) = calls_of b [BUTTON_EVENT_RELEASED]
      \<and> (\<forall>a. latch_mem (snd ?s1) a \<longleftrightarrow>
            latch_mem w a
            \<and> \<not> (latches (stages b) \<noteq> NULL \<and> latches (stages b) \<le> a
                  \<and> a < latches (stages b) + ?n))
      \<and> (latches (stages b) \<noteq> NULL \<longrightarrow> (\<forall>k<?n. \<not> stage_latch (fst ?s1) (snd ?s1) k))"
    if "last_state b = STATE_LONG_PRESSED \<and> \<not> is_pressed b pin"
  proof -
    have "last_state (fst ?s1) = STATE_IDLE"
      by (simp only: release [OF that] long_released_fst) simp
    moreover have "new_calls w (snd ?s1) = calls_of b [BUTTON_EVENT_RELEASED]"
      by (simp only: release [OF that] new_calls_def long_released_delivered) simp
    ultimately show ?thesis
      using cleared [OF that] clear [OF that] by blast
  qed
  have c5: "due_stages (fst (polls ?s1 ys)) (snd (polls ?s1 ys)) tot
      = filter (\<lambda>k. threshold (stage_cfg b w k) \<le> tot) [0..<?n]"
    if "last_state b = STATE_LONG_PRESSED \<and> \<not> is_pressed b pin
        \<and> configs (stages b) \<noteq> NULL \<and> latches (stages b) \<noteq> NULL
        \<and> no_long_poll ?s1 ys"
  proof -
    let ?s2 = "polls ?s1 ys"
    from that have rel: "last_state b = STATE_LONG_PRESSED \<and> \<not> is_pressed b pin"
      and on: "configs (stages b) \<noteq> NULL" "latches (stages b) \<noteq> NULL"
      and quiet: "no_long_poll ?s1 ys"
      by simp_all
    have stages2: "stages (fst ?s2) = stages b"
      by (simp add: polls_fields poll_fields)
    have mem2: "stage_mem (snd ?s2) = stage_mem w"
      by (simp add: polls_fields poll_fields)
    have "latch_mem (snd ?s2) = latch_mem (snd ?s1)"
      using quiet by (rule no_long_poll_latches)
    with clear [OF rel on(2)] have clear2: "\<forall>k<?n. \<not> stage_latch (fst ?s2) (snd ?s2) k"
      by (simp add: stage_latch_def stages2 poll_fields)
    have "filter (stage_due (fst ?s2) (snd ?s2) tot) [0..<?n]
        = filter (\<lambda>k. threshold (stage_cfg b w k) \<le> tot) [0..<?n]"
      using clear2 by (intro filter_cong) (auto simp: stage_due_def stage_cfg_def stages2 mem2)
    with on show ?thesis
      by (simp add: due_stages_def stages2)
  qed
  from c1 c2 c3 c4 c5 show ?thesis
    by blast
qed

text \<open>
  The witness, on the two-stage button. In state \<open>Pressed\<close> a poll leaves the set
  latches set. In state \<open>LongPressed\<close> the poll at tick 150 sets the latch of stage 0 and
  not that of stage 1. With both latches set, the release at tick 300 returns to \<open>Idle\<close>,
  delivers \<open>Released\<close> and clears both; the next press (ticks 400, 450, 1450) reaches
  \<open>LongPressed\<close> without a poll in that state, and a scan with 250 ticks of hold time
  then finds both stages due again.
\<close>

theorem latch_lifecycle_witness:
  "read_pin_func demo_long_button \<noteq> NULL \<and> get_tick_func demo_long_button \<noteq> NULL
   \<and> last_state demo_pressed_button \<noteq> STATE_LONG_PRESSED
   \<and> latch_mem (snd (poll (demo_pressed_button, demo_latched_world) (False, 500)))
        = latch_mem demo_latched_world
   \<and> snd (snd (Button_ConfigStages (Some demo_long_button) 10 40 2 demo_latched_world))
        = demo_latched_world
   \<and> last_state demo_long_button = STATE_LONG_PRESSED
   \<and> is_pressed demo_long_button False \<and> \<not> is_pressed demo_long_button True
   \<and> latch_mem (snd (poll (demo_long_button, demo_world) (False, 150))) 40
   \<and> \<not> latch_mem (snd (poll (demo_long_button, demo_world) (False, 150))) 41
   \<and> latch_mem demo_latched_world 40 \<and> latch_mem demo_latched_world 41
   \<and> last_state (fst (poll (demo_long_button, demo_latched_world) (True, 300))) = STATE_IDLE
   \<and> new_calls demo_latched_world (snd (poll (demo_long_button, demo_latched_world) (True, 300)))
        = [(3, BUTTON_EVENT_RELEASED, 7)]
   \<and> \<not> latch_mem (snd (poll (demo_long_button, demo_latched_world) (True, 300))) 40
   \<and> \<not> latch_mem (snd (poll (demo_long_button, demo_latched_world) (True, 300))) 41
   \<and> configs (stages demo_long_button) \<noteq> NULL \<and> latches (stages demo_long_button) \<noteq> NULL
   \<and> no_long_poll (poll (demo_long_button, demo_latched_world) (True, 300))
        [(False, 400), (False, 450), (False, 1450)]
   \<and> last_state (fst (polls (poll (demo_long_button, demo_latched_world) (True, 300))
        [(False, 400), (False, 450), (False, 1450)])) = STATE_LONG_PRESSED
   \<and> due_stages
        (fst (polls (poll (demo_long_button, demo_latched_world) (True, 300))
           [(False, 400), (False, 450), (False, 1450)]))
        (snd (polls (poll (demo_long_button, demo_latched_world) (True, 300))
           [(False, 400), (False, 450), (False, 1450)])) 250
        = [0, 1]"
proof -
  let ?ys = "[(False, 400), (False, 450), (False, 1450 :: u32)]"
  have fns: "read_pin_func demo_long_button \<noteq> NULL" "get_tick_func demo_long_button \<noteq> NULL"
    and fns': "read_pin_func demo_pressed_button \<noteq> NULL" "get_tick_func demo_pressed_button \<noteq> NULL"
    and on: "configs (stages demo_long_button) \<noteq> NULL" "latches (stages demo_long_button) \<noteq> NULL"
    by (simp_all add: demo_defs NULL_def)
  have other: "last_state demo_pressed_button \<noteq> STATE_LONG_PRESSED"
    and long: "last_state demo_long_button = STATE_LONG_PRESSED"
    and pr: "is_pressed demo_long_button False" "\<not> is_pressed demo_long_button True"
    by (simp_all add: demo_defs is_pressed_def)
  have set: "latch_mem demo_latched_world 40" "latch_mem demo_latched_world 41"
    by (simp_all add: demo_defs)
  note in_pressed = latch_lifecycle [OF fns', of demo_latched_world False 500]
  note scan = latch_lifecycle [OF fns, of demo_world False 150]
  note release = latch_lifecycle
    [OF fns, of demo_latched_world True 300 10 40 2 ?ys 250]
  have w1: "latch_mem (snd (poll (demo_pressed_button, demo_latched_world) (False, 500)))
        = latch_mem demo_latched_world"
    using in_pressed other by blast
  have w2: "snd (snd (Button_ConfigStages (Some demo_long_button) 10 40 2 demo_latched_world))
        = demo_latched_world"
    using release by blast
  have due150: "due_stages demo_long_button demo_world (150 - press_start_tick demo_long_button) = [0]"
    by (simp add: demo_defs stage_defs NULL_def upt_two)
  from scan long pr(1)
  have "\<forall>a. latch_mem (snd (poll (demo_long_button, demo_world) (False, 150))) a \<longleftrightarrow>
      latch_mem demo_world a
      \<or> (\<exists>k\<in>set (due_stages demo_long_button demo_world (150 - press_start_tick demo_long_button)).
            a = latches (stages demo_long_button) + k)"
    by blast
  then have w3: "latch_mem (snd (poll (demo_long_button, demo_world) (False, 150))) 40"
    "\<not> latch_mem (snd (poll (demo_long_button, demo_world) (False, 150))) 41"
    unfolding due150 by (simp_all add: demo_defs)
  from release long pr(2)
  have rel: "last_state (fst (poll (demo_long_button, demo_latched_world) (True, 300))) = STATE_IDLE"
    "new_calls demo_latched_world (snd (poll (demo_long_button, demo_latched_world) (True, 300)))
        = calls_of demo_long_button [BUTTON_EVENT_RELEASED]"
    "\<forall>a. latch_mem (snd (poll (demo_long_button, demo_latched_world) (True, 300))) a \<longleftrightarrow>
        latch_mem demo_latched_world a
        \<and> \<not> (latches (stages demo_long_button) \<noteq> NULL \<and> latches (stages demo_long_button) \<le> a
              \<and> a < latches (stages demo_long_button) + unat (count (stages demo_long_button)))"
    by blast+
  have w4: "new_calls demo_latched_world (snd (poll (demo_long_button, demo_latched_world) (True, 300)))
        = [(3, BUTTON_EVENT_RELEASED, 7)]"
    unfolding rel(2) by (simp add: calls_of_def demo_defs NULL_def)
  have w5: "\<not> latch_mem (snd (poll (demo_long_button, demo_latched_world) (True, 300))) 40"
    "\<not> latch_mem (snd (poll (demo_long_button, demo_latched_world) (True, 300))) 41"
    using rel(3) by (simp_all add: demo_defs NULL_def)
  define b1 where "b1 = demo_long_button\<lparr>last_state := STATE_IDLE\<rparr>"
  define w1 where "w1 = snd (poll (demo_long_button, demo_latched_world) (True, 300))"
  have "fst (poll (demo_long_button, demo_latched_world) (True, 300)) = b1"
    using fns long pr(2) by (simp add: poll_handlers long_released_fst b1_def)
  then have s1: "poll (demo_long_button, demo_latched_world) (True, 300) = (b1, w1)"
    by (simp add: w1_def prod_eq_iff)
  have quiet: "no_long_poll (b1, w1) ?ys"
    and again: "last_state (fst (polls (b1, w1) ?ys)) = STATE_LONG_PRESSED"
    by (simp_all add: b1_def poll_eval demo_defs tick_defs NULL_def)
  from release long pr(2) on quiet [folded s1]
  have "due_stages
        (fst (polls (poll (demo_long_button, demo_latched_world) (True, 300)) ?ys))
        (snd (polls (poll (demo_long_button, demo_latched_world) (True, 300)) ?ys)) 250
      = filter (\<lambda>k. threshold (stage_cfg demo_long_button demo_latched_world k) \<le> 250)
          [0..<unat (count (stages demo_long_button))]"
    by blast
  also have "\<dots> = [0, 1]"
    by (simp add: demo_defs stage_cfg_def upt_two)
  finally have w6: "due_stages
        (fst (polls (poll (demo_long_button, demo_latched_world) (True, 300)) ?ys))
        (snd (polls (poll (demo_long_button, demo_latched_world) (True, 300)) ?ys)) 250
      = [0, 1]" .
  from fns other w1 w2 long pr w3 set rel(1) w4 w5 on quiet [folded s1] again [folded s1] w6
  show ?thesis
    by (intro conjI)
qed

subsection \<open>C6: rejected stage configurations\<close>

text \<open>
  Claim C6. \<^verbatim>\<open>Button_ConfigStages\<close> returns \<open>InvalidArgument\<close> when the button, the
  configuration array or the latch array is absent or the count is zero; it returns
  \<open>InvalidStages\<close> when the first threshold is zero or some threshold does not exceed its
  predecessor; in every failing case the button record (with any stage configuration
  attached before) and the world are returned unchanged; and on success the stage fields
  are replaced by the new array addresses and count.
\<close>

theorem config_stages_rejects_or_replaces:
  "(button = None \<or> cfgs = NULL \<or> lats = NULL \<or> cnt = 0 \<longrightarrow>
      Button_ConfigStages button cfgs lats cnt w = (BUTTON_ERR_INVALID_ARG, button, w))
   \<and> (button \<noteq> None \<and> cfgs \<noteq> NULL \<and> lats \<noteq> NULL \<and> cnt \<noteq> 0
        \<and> (threshold (stage_mem w cfgs) = 0
            \<or> (\<exists>k. 1 \<le> k \<and> k < unat cnt
                   \<and> threshold (stage_mem w (cfgs + k)) \<le> threshold (stage_mem w (cfgs + (k - 1))))) \<longrightarrow>
      Button_ConfigStages button cfgs lats cnt w = (BUTTON_ERR_INVALID_STAGES, button, w))
   \<and> (fst (Button_ConfigStages button cfgs lats cnt w) \<noteq> BUTTON_OK \<longrightarrow>
      snd (Button_ConfigStages button cfgs lats cnt w) = (button, w))
   \<and> (button = Some b \<and> cfgs \<noteq> NULL \<and> lats \<noteq> NULL \<and> cnt \<noteq> 0
        \<and> threshold (stage_mem w cfgs) \<noteq> 0
        \<and> (\<forall>k. 1 \<le> k \<and> k < unat cnt \<longrightarrow>
               threshold (stage_mem w (cfgs + (k - 1))) < threshold (stage_mem w (cfgs + k))) \<longrightarrow>
      Button_ConfigStages button cfgs lats cnt w =
        (BUTTON_OK, Some (b\<lparr>stages := \<lparr>configs = cfgs, latches = lats, count = cnt\<rparr>\<rparr>), w))"
proof -
  let ?bad = "button = None \<or> cfgs = NULL \<or> lats = NULL \<or> cnt = 0"
  let ?r = "Button_ConfigStages button cfgs lats cnt w"
  have invalid_arg: "?r = (BUTTON_ERR_INVALID_ARG, button, w)" if "?bad"
    using that by (cases button) (simp_all add: Button_ConfigStages_def)
  have invalid_stages: "?r = (BUTTON_ERR_INVALID_STAGES, button, w)"
    if "\<not> ?bad" and "\<not> validate_stages (stage_mem w) cfgs cnt"
    using that by (cases button) (simp_all add: Button_ConfigStages_def)
  have ok: "?r = (BUTTON_OK, Some (b'\<lparr>stages := \<lparr>configs = cfgs, latches = lats, count = cnt\<rparr>\<rparr>), w)"
    if "button = Some b'" and "\<not> ?bad" and "validate_stages (stage_mem w) cfgs cnt" for b'
    using that by (simp add: Button_ConfigStages_def)
  have c1: "?bad \<longrightarrow> ?r = (BUTTON_ERR_INVALID_ARG, button, w)"
    using invalid_arg by blast
  have c2: "button \<noteq> None \<and> cfgs \<noteq> NULL \<and> lats \<noteq> NULL \<and> cnt \<noteq> 0
        \<and> (threshold (stage_mem w cfgs) = 0
            \<or> (\<exists>k. 1 \<le> k \<and> k < unat cnt
                   \<and> threshold (stage_mem w (cfgs + k)) \<le> threshold (stage_mem w (cfgs + (k - 1))))) \<longrightarrow>
      ?r = (BUTTON_ERR_INVALID_STAGES, button, w)"
  proof
    assume a: "button \<noteq> None \<and> cfgs \<noteq> NULL \<and> lats \<noteq> NULL \<and> cnt \<noteq> 0
        \<and> (threshold (stage_mem w cfgs) = 0
            \<or> (\<exists>k. 1 \<le> k \<and> k < unat cnt
                   \<and> threshold (stage_mem w (cfgs + k)) \<le> threshold (stage_mem w (cfgs + (k - 1)))))"
    then have "\<not> validate_stages (stage_mem w) cfgs cnt"
      unfolding validate_stages_iff by (auto simp: not_less)
    moreover from a have "\<not> ?bad" by simp
    ultimately show "?r = (BUTTON_ERR_INVALID_STAGES, button, w)"
      by (rule invalid_stages [rotated])
  qed
  have c3: "fst ?r \<noteq> BUTTON_OK \<longrightarrow> snd ?r = (button, w)"
  proof (cases "?bad")
    case True
    from invalid_arg [OF True] show ?thesis by simp
  next
    case False
    then obtain b0 where b0: "button = Some b0" by auto
    show ?thesis
    proof (cases "validate_stages (stage_mem w) cfgs cnt")
      case True
      from ok [OF b0 False True] show ?thesis by simp
    next
      case invalid: False
      from invalid_stages [OF False invalid] show ?thesis by simp
    qed
  qed
  have c4: "button = Some b \<and> cfgs \<noteq> NULL \<and> lats \<noteq> NULL \<and> cnt \<noteq> 0
        \<and> threshold (stage_mem w cfgs) \<noteq> 0
        \<and> (\<forall>k. 1 \<le> k \<and> k < unat cnt \<longrightarrow>
               threshold (stage_mem w (cfgs + (k - 1))) < threshold (stage_mem w (cfgs + k))) \<longrightarrow>
      ?r = (BUTTON_OK, Some (b\<lparr>stages := \<lparr>configs = cfgs, latches = lats, count = cnt\<rparr>\<rparr>), w)"
  proof
    assume a: "button = Some b \<and> cfgs \<noteq> NULL \<and> lats \<noteq> NULL \<and> cnt \<noteq> 0
        \<and> threshold (stage_mem w cfgs) \<noteq> 0
        \<and> (\<forall>k. 1 \<le> k \<and> k < unat cnt \<longrightarrow>
               threshold (stage_mem w (cfgs + (k - 1))) < threshold (stage_mem w (cfgs + k)))"
    then have "validate_stages (stage_mem w) cfgs cnt"
      unfolding validate_stages_iff by simp
    moreover from a have "button = Some b" "\<not> ?bad" by simp_all
    ultimately show "?r = (BUTTON_OK, Some (b\<lparr>stages := \<lparr>configs = cfgs, latches = lats, count = cnt\<rparr>\<rparr>), w)"
      by (rule ok [rotated 2])
  qed
  from c1 c2 c3 c4 show ?thesis by (intro conjI)
qed

text \<open>
  The rejections the specification lists, on a button that already carries the valid
  configuration: no button, an empty sequence, the thresholds 100, 100 and the
  thresholds 0, 200 leave everything as it was; the thresholds 100, 200 are attached to
  the fresh button.
\<close>

theorem config_stages_rejects_or_replaces_witness:
  "Button_ConfigStages None 10 40 2 demo_world = (BUTTON_ERR_INVALID_ARG, None, demo_world)
   \<and> Button_ConfigStages (Some demo_staged_button) 10 40 0 demo_world
       = (BUTTON_ERR_INVALID_ARG, Some demo_staged_button, demo_world)
   \<and> Button_ConfigStages (Some demo_staged_button) 20 40 2 demo_world
       = (BUTTON_ERR_INVALID_STAGES, Some demo_staged_button, demo_world)
   \<and> Button_ConfigStages (Some demo_staged_button) 30 40 2 demo_world
       = (BUTTON_ERR_INVALID_STAGES, Some demo_staged_button, demo_world)
   \<and> fst (Button_ConfigStages (Some demo_staged_button) 30 40 2 demo_world) \<noteq> BUTTON_OK
   \<and> snd (Button_ConfigStages (Some demo_staged_button) 30 40 2 demo_world)
       = (Some demo_staged_button, demo_world)
   \<and> Button_ConfigStages (Some demo_button) 10 40 2 demo_world
       = (BUTTON_OK,
          Some (demo_button\<lparr>stages := \<lparr>configs = 10, latches = 40, count = 2\<rparr>\<rparr>), demo_world)"
proof -
  have no_button: "Button_ConfigStages None 10 40 2 demo_world
      = (BUTTON_ERR_INVALID_ARG, None, demo_world)"
    using config_stages_rejects_or_replaces [of None 10 40 2 demo_world] by simp
  have empty: "Button_ConfigStages (Some demo_staged_button) 10 40 0 demo_world
      = (BUTTON_ERR_INVALID_ARG, Some demo_staged_button, demo_world)"
    using config_stages_rejects_or_replaces [of "Some demo_staged_button" 10 40 0 demo_world]
    by simp
  have equal_thresholds: "Button_ConfigStages (Some demo_staged_button) 20 40 2 demo_world
      = (BUTTON_ERR_INVALID_STAGES, Some demo_staged_button, demo_world)"
  proof -
    have "\<exists>k. 1 \<le> k \<and> k < unat (2 :: u8)
        \<and> threshold (stage_mem demo_world (20 + k)) \<le> threshold (stage_mem demo_world (20 + (k - 1)))"
      by (rule exI [of _ 1]) (simp add: demo_world_def)
    then show ?thesis
      using config_stages_rejects_or_replaces [of "Some demo_staged_button" 20 40 2 demo_world]
      by (simp add: NULL_def)
  qed
  have zero_first: "Button_ConfigStages (Some demo_staged_button) 30 40 2 demo_world
      = (BUTTON_ERR_INVALID_STAGES, Some demo_staged_button, demo_world)"
    using config_stages_rejects_or_replaces [of "Some demo_staged_button" 30 40 2 demo_world]
    by (simp add: NULL_def demo_world_def)
  have accepted: "Button_ConfigStages (Some demo_button) 10 40 2 demo_world
      = (BUTTON_OK,
         Some (demo_button\<lparr>stages := \<lparr>configs = 10, latches = 40, count = 2\<rparr>\<rparr>), demo_world)"
  proof -
    have "\<forall>k. 1 \<le> k \<and> k < unat (2 :: u8) \<longrightarrow>
        threshold (stage_mem demo_world (10 + (k - 1))) < threshold (stage_mem demo_world (10 + k))"
    proof (intro allI impI)
      fix k :: nat
      assume "1 \<le> k \<and> k < unat (2 :: u8)"
      then have "k = 1" by simp
      then show "threshold (stage_mem demo_world (10 + (k - 1)))
          < threshold (stage_mem demo_world (10 + k))"
        by (simp add: demo_world_def)
    qed
    then show ?thesis
      using config_stages_rejects_or_replaces
        [of "Some demo_button" 10 40 2 demo_world demo_button]
      by (simp add: NULL_def demo_world_def)
  qed
  from zero_first have "fst (Button_ConfigStages (Some demo_staged_button) 30 40 2 demo_world) \<noteq> BUTTON_OK"
    by simp
  moreover from this have "snd (Button_ConfigStages (Some demo_staged_button) 30 40 2 demo_world)
       = (Some demo_staged_button, demo_world)"
    using config_stages_rejects_or_replaces [of "Some demo_staged_button" 30 40 2 demo_world]
    by blast
  ultimately show ?thesis
    using no_button empty equal_thresholds zero_first accepted by blast
qed

subsection \<open>C7: elapsed time across a wrap of the tick counter\<close>

lemma elapsed_unat:
  assumes "T0 \<le> T" and "T - T0 < 2 ^ 32"
  shows "unat ((of_nat T :: u32) - of_nat T0) = T - T0"
proof -
  have "(of_nat T :: u32) - of_nat T0 = of_nat (T - T0)"
    using assms(1) by simp
  moreover have "unat (of_nat (T - T0) :: u32) = T - T0"
    using assms(2) by (simp add: unat_of_nat)
  ultimately show ?thesis
    by simp
qed

lemma elapsed_le:
  assumes "T0 \<le> T" and "T - T0 < 2 ^ 32"
  shows "c \<le> (of_nat T :: u32) - of_nat T0 \<longleftrightarrow> unat c \<le> T - T0"
  using elapsed_unat [OF assms] by (simp add: word_le_nat_alt)

text \<open>
  Claim C7. Every elapsed time a poll computes is the difference of two 32-bit words,
  that is, the difference of their values modulo \<open>2 ^ 32\<close>. Let the current tick be the
  true time \<open>T\<close> reduced to 32 bits and the recorded ticks the true times \<open>Tc\<close> (last
  change), \<open>Ts\<close> (press start) and \<open>Th\<close> (last hold) reduced to 32 bits, each at most
  \<open>T\<close> and less than \<open>2 ^ 32\<close> before it. Then each computed difference is the true
  separation, however often the counter wrapped in between, and every threshold
  comparison decides as it would on the true times: the debounce handler and the
  long-press transition return the record and deliver the call the true elapsed time
  calls for; the handler of state \<open>LongPressed\<close>, and with it a poll in that state, sets
  the latches and delivers the events of exactly the unlatched stages whose threshold
  the true hold time has reached, followed by \<open>Hold\<close> exactly when the true hold time
  and the true time since the last hold have reached their thresholds.
\<close>

theorem elapsed_time_survives_wraparound:
  assumes change: "Tc \<le> T" "T - Tc < 2 ^ 32" "last_change_tick b = of_nat Tc"
    and start: "Ts \<le> T" "T - Ts < 2 ^ 32" "press_start_tick b = of_nat Ts"
    and hold: "Th \<le> T" "T - Th < 2 ^ 32" "last_hold_tick b = of_nat Th"
  shows "unat (t - t0 :: u32) = (unat t + 2 ^ 32 - unat t0) mod 2 ^ 32
    \<and> unat (of_nat T - last_change_tick b) = T - Tc
    \<and> unat (of_nat T - press_start_tick b) = T - Ts
    \<and> unat (of_nat T - last_hold_tick b) = T - Th
    \<and> handle_state_debounce b p (of_nat T) w =
        (if T - Tc < unat BUTTON_DEBOUNCE_TICKS then (b, w)
         else if p then (b\<lparr>last_state := STATE_PRESSED, last_change_tick := of_nat T\<rparr>,
                         w\<lparr>delivered := delivered w @ calls_of b [BUTTON_EVENT_PRESSED]\<rparr>)
         else (b\<lparr>last_state := STATE_IDLE\<rparr>, w))
    \<and> handle_state_pressed b True (of_nat T) w =
        (if unat BUTTON_LONG_PRESS_TICKS \<le> T - Tc
         then (b\<lparr>last_state := STATE_LONG_PRESSED, last_change_tick := of_nat T,
                 press_start_tick := of_nat T, last_hold_tick := of_nat T\<rparr>,
               w\<lparr>delivered := delivered w @ calls_of b [BUTTON_EVENT_LONG_PRESSED]\<rparr>)
         else (b, w))
    \<and> due_stages b w (of_nat T - press_start_tick b) =
        (if configs (stages b) \<noteq> NULL \<and> latches (stages b) \<noteq> NULL
         then filter (\<lambda>k. unat (threshold (stage_cfg b w k)) \<le> T - Ts \<and> \<not> stage_latch b w k)
                [0..<unat (count (stages b))]
         else [])
    \<and> hold_due b (of_nat T) =
        (unat BUTTON_LONG_PRESS_TICKS \<le> T - Ts \<and> unat BUTTON_HOLD_TICKS \<le> T - Th)
    \<and> handle_state_long b True (of_nat T) w =
        (if unat BUTTON_LONG_PRESS_TICKS \<le> T - Ts \<and> unat BUTTON_HOLD_TICKS \<le> T - Th
         then b\<lparr>last_hold_tick := of_nat T\<rparr> else b,
         w\<lparr>latch_mem :=
             (\<lambda>a. latch_mem w a \<or>
               (configs (stages b) \<noteq> NULL \<and> latches (stages b) \<noteq> NULL
                \<and> latches (stages b) \<le> a
                \<and> a < latches (stages b) + unat (count (stages b))
                \<and> unat (threshold (stage_cfg b w (a - latches (stages b)))) \<le> T - Ts)),
           delivered := delivered w @ calls_of b
              (stage_events b w
                 (if configs (stages b) \<noteq> NULL \<and> latches (stages b) \<noteq> NULL
                  then filter (\<lambda>k. unat (threshold (stage_cfg b w k)) \<le> T - Ts
                                  \<and> \<not> stage_latch b w k)
                         [0..<unat (count (stages b))]
                  else [])
               @ (if unat BUTTON_LONG_PRESS_TICKS \<le> T - Ts \<and> unat BUTTON_HOLD_TICKS \<le> T - Th
                  then [BUTTON_EVENT_HOLD] else []))\<rparr>)
    \<and> (read_pin_func b \<noteq> NULL \<and> get_tick_func b \<noteq> NULL
        \<and> last_state b = STATE_LONG_PRESSED \<and> is_pressed b pin \<longrightarrow>
        fst (poll (b, w) (pin, of_nat T)) =
          (if unat BUTTON_LONG_PRESS_TICKS \<le> T - Ts \<and> unat BUTTON_HOLD_TICKS \<le> T - Th
           then b\<lparr>last_hold_tick := of_nat T\<rparr> else b)
        \<and> latch_mem (snd (poll (b, w) (pin, of_nat T))) =
             (\<lambda>a. latch_mem w a \<or>
               (configs (stages b) \<noteq> NULL \<and> latches (stages b) \<noteq> NULL
                \<and> latches (stages b) \<le> a
                \<and> a < latches (stages b) + unat (count (stages b))
                \<and> unat (threshold (stage_cfg b w (a - latches (stages b)))) \<le> T - Ts))
        \<and> new_calls w (snd (poll (b, w) (pin, of_nat T))) = calls_of b
              (stage_events b w
                 (if configs (stages b) \<noteq> NULL \<and> latches (stages b) \<noteq> NULL
                  then filter (\<lambda>k. unat (threshold (stage_cfg b w k)) \<le> T - Ts
                                  \<and> \<not> stage_latch b w k)
                         [0..<unat (count (stages b))]
                  else [])
               @ (if unat BUTTON_LONG_PRESS_TICKS \<le> T - Ts \<and> unat BUTTON_HOLD_TICKS \<le> T - Th
                  then [BUTTON_EVENT_HOLD] else [])))"
proof -
  have modular: "unat (t - t0 :: u32) = (unat t + 2 ^ 32 - unat t0) mod 2 ^ 32"
  proof -
    define m :: nat where "m = 2 ^ 32"
    have bounds: "unat t < m" "unat t0 < m"
      using unsigned_less [of t] unsigned_less [of t0] by (simp_all add: m_def)
    have sub: "unat (t - t0) = (if unat t0 \<le> unat t then unat t - unat t0
        else unat t + m - unat t0)"
      by (simp add: unat_sub_if_size word_size m_def)
    have "unat (t - t0) = (unat t + m - unat t0) mod m"
    proof (cases "unat t0 \<le> unat t")
      case True
      then have "unat t + m - unat t0 = (unat t - unat t0) + m"
        by simp
      then have "(unat t + m - unat t0) mod m = (unat t - unat t0) mod m"
        by simp
      also have "\<dots> = unat t - unat t0"
        using bounds by simp
      finally show ?thesis
        using True by (simp only: sub if_True)
    next
      case False
      then have "unat t + m - unat t0 < m"
        using bounds by simp
      then have "(unat t + m - unat t0) mod m = unat t + m - unat t0"
        by simp
      then show ?thesis
        using False by (simp only: sub if_False)
    qed
    then show ?thesis
      by (simp only: m_def)
  qed
  note le_change = elapsed_le [OF change(1,2)]
  note le_start = elapsed_le [OF start(1,2)]
  note le_hold = elapsed_le [OF hold(1,2)]
  have le_start': "c \<le> of_nat T - press_start_tick b \<longleftrightarrow> unat c \<le> T - Ts" for c
    by (simp only: start(3) le_start)
  have d1: "unat (of_nat T - last_change_tick b) = T - Tc"
    and d2: "unat (of_nat T - press_start_tick b) = T - Ts"
    and d3: "unat (of_nat T - last_hold_tick b) = T - Th"
    using elapsed_unat [OF change(1,2)] elapsed_unat [OF start(1,2)]
      elapsed_unat [OF hold(1,2)]
    by (simp_all only: change(3) start(3) hold(3))
  have debounce: "handle_state_debounce b p (of_nat T) w =
        (if T - Tc < unat BUTTON_DEBOUNCE_TICKS then (b, w)
         else if p then (b\<lparr>last_state := STATE_PRESSED, last_change_tick := of_nat T\<rparr>,
                         w\<lparr>delivered := delivered w @ calls_of b [BUTTON_EVENT_PRESSED]\<rparr>)
         else (b\<lparr>last_state := STATE_IDLE\<rparr>, w))"
    by (simp add: debounce_eq change(3) not_le [symmetric] le_change)
  have pressed: "handle_state_pressed b True (of_nat T) w =
        (if unat BUTTON_LONG_PRESS_TICKS \<le> T - Tc
         then (b\<lparr>last_state := STATE_LONG_PRESSED, last_change_tick := of_nat T,
                 press_start_tick := of_nat T, last_hold_tick := of_nat T\<rparr>,
               w\<lparr>delivered := delivered w @ calls_of b [BUTTON_EVENT_LONG_PRESSED]\<rparr>)
         else (b, w))"
    by (simp add: pressed_eq change(3) le_change)
  have due: "due_stages b w (of_nat T - press_start_tick b) =
        (if configs (stages b) \<noteq> NULL \<and> latches (stages b) \<noteq> NULL
         then filter (\<lambda>k. unat (threshold (stage_cfg b w k)) \<le> T - Ts \<and> \<not> stage_latch b w k)
                [0..<unat (count (stages b))]
         else [])"
    by (simp add: due_stages_def stage_due_def [abs_def] start(3) le_start)
  have scan: "hold_due b (of_nat T) =
        (unat BUTTON_LONG_PRESS_TICKS \<le> T - Ts \<and> unat BUTTON_HOLD_TICKS \<le> T - Th)"
    by (simp add: hold_due_def start(3) hold(3) le_start le_hold)
  have long: "handle_state_long b True (of_nat T) w =
        (if unat BUTTON_LONG_PRESS_TICKS \<le> T - Ts \<and> unat BUTTON_HOLD_TICKS \<le> T - Th
         then b\<lparr>last_hold_tick := of_nat T\<rparr> else b,
         w\<lparr>latch_mem :=
             (\<lambda>a. latch_mem w a \<or>
               (configs (stages b) \<noteq> NULL \<and> latches (stages b) \<noteq> NULL
                \<and> latches (stages b) \<le> a
                \<and> a < latches (stages b) + unat (count (stages b))
                \<and> unat (threshold (stage_cfg b w (a - latches (stages b)))) \<le> T - Ts)),
           delivered := delivered w @ calls_of b
              (stage_events b w
                 (if configs (stages b) \<noteq> NULL \<and> latches (stages b) \<noteq> NULL
                  then filter (\<lambda>k. unat (threshold (stage_cfg b w k)) \<le> T - Ts
                                  \<and> \<not> stage_latch b w k)
                         [0..<unat (count (stages b))]
                  else [])
               @ (if unat BUTTON_LONG_PRESS_TICKS \<le> T - Ts \<and> unat BUTTON_HOLD_TICKS \<le> T - Th
                  then [BUTTON_EVENT_HOLD] else []))\<rparr>)"
    by (simp only: long_pressed_eq due scan le_start')
  have poll: "fst (poll (b, w) (pin, of_nat T)) =
          (if unat BUTTON_LONG_PRESS_TICKS \<le> T - Ts \<and> unat BUTTON_HOLD_TICKS \<le> T - Th
           then b\<lparr>last_hold_tick := of_nat T\<rparr> else b)
        \<and> latch_mem (snd (poll (b, w) (pin, of_nat T))) =
             (\<lambda>a. latch_mem w a \<or>
               (configs (stages b) \<noteq> NULL \<and> latches (stages b) \<noteq> NULL
                \<and> latches (stages b) \<le> a
                \<and> a < latches (stages b) + unat (count (stages b))
                \<and> unat (threshold (stage_cfg b w (a - latches (stages b)))) \<le> T - Ts))
        \<and> new_calls w (snd (poll (b, w) (pin, of_nat T))) = calls_of b
              (stage_events b w
                 (if configs (stages b) \<noteq> NULL \<and> latches (stages b) \<noteq> NULL
                  then filter (\<lambda>k. unat (threshold (stage_cfg b w k)) \<le> T - Ts
                                  \<and> \<not> stage_latch b w k)
                         [0..<unat (count (stages b))]
                  else [])
               @ (if unat BUTTON_LONG_PRESS_TICKS \<le> T - Ts \<and> unat BUTTON_HOLD_TICKS \<le> T - Th
                  then [BUTTON_EVENT_HOLD] else []))"
    if "read_pin_func b \<noteq> NULL \<and> get_tick_func b \<noteq> NULL
        \<and> last_state b = STATE_LONG_PRESSED \<and> is_pressed b pin"
  proof -
    from that have "poll (b, w) (pin, of_nat T) = handle_state_long b True (of_nat T) w"
      by (simp add: poll_handlers)
    then show ?thesis
      unfolding long by (simp add: new_calls_def)
  qed
  show ?thesis
  proof (intro conjI impI)
    assume that: "read_pin_func b \<noteq> NULL \<and> get_tick_func b \<noteq> NULL
        \<and> last_state b = STATE_LONG_PRESSED \<and> is_pressed b pin"
    from poll [OF that] show "fst (poll (b, w) (pin, of_nat T)) =
          (if unat BUTTON_LONG_PRESS_TICKS \<le> T - Ts \<and> unat BUTTON_HOLD_TICKS \<le> T - Th
           then b\<lparr>last_hold_tick := of_nat T\<rparr> else b)"
      by (rule conjunct1)
    from poll [OF that] show "latch_mem (snd (poll (b, w) (pin, of_nat T))) =
             (\<lambda>a. latch_mem w a \<or>
               (configs (stages b) \<noteq> NULL \<and> latches (stages b) \<noteq> NULL
                \<and> latches (stages b) \<le> a
                \<and> a < latches (stages b) + unat (count (stages b))
                \<and> unat (threshold (stage_cfg b w (a - latches (stages b)))) \<le> T - Ts))"
      by (elim conjE)
    from poll [OF that] show "new_calls w (snd (poll (b, w) (pin, of_nat T))) = calls_of b
              (stage_events b w
                 (if configs (stages b) \<noteq> NULL \<and> latches (stages b) \<noteq> NULL
                  then filter (\<lambda>k. unat (threshold (stage_cfg b w k)) \<le> T - Ts
                                  \<and> \<not> stage_latch b w k)
                         [0..<unat (count (stages b))]
                  else [])
               @ (if unat BUTTON_LONG_PRESS_TICKS \<le> T - Ts \<and> unat BUTTON_HOLD_TICKS \<le> T - Th
                  then [BUTTON_EVENT_HOLD] else []))"
      by (elim conjE)
  qed (fact modular d1 d2 d3 debounce pressed due scan long)+
qed

text \<open>
  The witness: the two-stage button in state \<open>LongPressed\<close>, its ticks recorded 60, 1040
  and 70 ticks before the current one, with the counter wrapping in between (the current
  tick is 40). The poll fires both stages (thresholds 100 and 200) and \<open>Hold\<close>.
\<close>

theorem elapsed_time_survives_wraparound_witness:
  "(of_nat 4294967336 :: u32) = 40
   \<and> last_change_tick wrap_button = of_nat 4294967276
   \<and> press_start_tick wrap_button = of_nat 4294966296
   \<and> last_hold_tick wrap_button = of_nat 4294967266
   \<and> unat (40 - 4294967276 :: u32) = 60
   \<and> unat (40 - last_change_tick wrap_button) = 60
   \<and> unat (40 - press_start_tick wrap_button) = 1040
   \<and> unat (40 - last_hold_tick wrap_button) = 70
   \<and> handle_state_debounce wrap_button True 40 demo_world =
       (wrap_button\<lparr>last_state := STATE_PRESSED, last_change_tick := 40\<rparr>,
        demo_world\<lparr>delivered := [(3, BUTTON_EVENT_PRESSED, 7)]\<rparr>)
   \<and> handle_state_pressed wrap_button True 40 demo_world = (wrap_button, demo_world)
   \<and> due_stages wrap_button demo_world (40 - press_start_tick wrap_button) = [0, 1]
   \<and> hold_due wrap_button 40
   \<and> fst (handle_state_long wrap_button True 40 demo_world) =
       wrap_button\<lparr>last_hold_tick := 40\<rparr>
   \<and> latch_mem (snd (handle_state_long wrap_button True 40 demo_world)) 40
   \<and> latch_mem (snd (handle_state_long wrap_button True 40 demo_world)) 41
   \<and> \<not> latch_mem (snd (handle_state_long wrap_button True 40 demo_world)) 42
   \<and> delivered (snd (handle_state_long wrap_button True 40 demo_world)) =
       [(3, BUTTON_EVENT_LONG_PRESSED, 7), (3, BUTTON_EVENT_SUPER_LONG_PRESSED, 7),
        (3, BUTTON_EVENT_HOLD, 7)]
   \<and> read_pin_func wrap_button \<noteq> NULL \<and> get_tick_func wrap_button \<noteq> NULL
   \<and> last_state wrap_button = STATE_LONG_PRESSED \<and> is_pressed wrap_button False
   \<and> fst (poll (wrap_button, demo_world) (False, 40)) = wrap_button\<lparr>last_hold_tick := 40\<rparr>
   \<and> latch_mem (snd (poll (wrap_button, demo_world) (False, 40))) 40
   \<and> latch_mem (snd (poll (wrap_button, demo_world) (False, 40))) 41
   \<and> \<not> latch_mem (snd (poll (wrap_button, demo_world) (False, 40))) 42
   \<and> new_calls demo_world (snd (poll (wrap_button, demo_world) (False, 40))) =
       [(3, BUTTON_EVENT_LONG_PRESSED, 7), (3, BUTTON_EVENT_SUPER_LONG_PRESSED, 7),
        (3, BUTTON_EVENT_HOLD, 7)]"
proof -
  have now: "(of_nat 4294967336 :: u32) = 40"
    by simp
  have ticks: "last_change_tick wrap_button = of_nat 4294967276"
    "press_start_tick wrap_button = of_nat 4294966296"
    "last_hold_tick wrap_button = of_nat 4294967266"
    by (simp_all add: wrap_button_def)
  have fields: "configs (stages wrap_button) = 10" "latches (stages wrap_button) = 40"
    "count (stages wrap_button) = 2" "callback wrap_button = 3" "context_ptr wrap_button = 7"
    "read_pin_func wrap_button = 1" "get_tick_func wrap_button = 2"
    "last_state wrap_button = STATE_LONG_PRESSED" "active_level wrap_button = BUTTON_ACTIVE_LOW"
    by (simp_all add: demo_defs)
  have world: "stage_mem demo_world = demo_stage_mem" "latch_mem demo_world = (\<lambda>a. False)"
    "delivered demo_world = []"
    by (simp_all add: demo_world_def)
  have fns: "read_pin_func wrap_button \<noteq> NULL \<and> get_tick_func wrap_button \<noteq> NULL
      \<and> last_state wrap_button = STATE_LONG_PRESSED \<and> is_pressed wrap_button False"
    by (simp add: fields is_pressed_def NULL_def)
  note inst = elapsed_time_survives_wraparound
    [where T = 4294967336 and Tc = 4294967276 and Ts = 4294966296 and Th = 4294967266
      and b = wrap_button and t = 40 and ?t0.0 = 4294967276 and p = True
      and w = demo_world and pin = False,
      OF _ _ ticks(1) _ _ ticks(2) _ _ ticks(3), unfolded now]
  have all: "unat (40 - 4294967276 :: u32) = 60
   \<and> unat (40 - last_change_tick wrap_button) = 60
   \<and> unat (40 - press_start_tick wrap_button) = 1040
   \<and> unat (40 - last_hold_tick wrap_button) = 70
   \<and> handle_state_debounce wrap_button True 40 demo_world =
       (wrap_button\<lparr>last_state := STATE_PRESSED, last_change_tick := 40\<rparr>,
        demo_world\<lparr>delivered := [(3, BUTTON_EVENT_PRESSED, 7)]\<rparr>)
   \<and> handle_state_pressed wrap_button True 40 demo_world = (wrap_button, demo_world)
   \<and> due_stages wrap_button demo_world (40 - press_start_tick wrap_button) = [0, 1]
   \<and> hold_due wrap_button 40
   \<and> fst (handle_state_long wrap_button True 40 demo_world) =
       wrap_button\<lparr>last_hold_tick := 40\<rparr>
   \<and> latch_mem (snd (handle_state_long wrap_button True 40 demo_world)) 40
   \<and> latch_mem (snd (handle_state_long wrap_button True 40 demo_world)) 41
   \<and> \<not> latch_mem (snd (handle_state_long wrap_button True 40 demo_world)) 42
   \<and> delivered (snd (handle_state_long wrap_button True 40 demo_world)) =
       [(3, BUTTON_EVENT_LONG_PRESSED, 7), (3, BUTTON_EVENT_SUPER_LONG_PRESSED, 7),
        (3, BUTTON_EVENT_HOLD, 7)]
   \<and> fst (poll (wrap_button, demo_world) (False, 40)) = wrap_button\<lparr>last_hold_tick := 40\<rparr>
   \<and> latch_mem (snd (poll (wrap_button, demo_world) (False, 40))) 40
   \<and> latch_mem (snd (poll (wrap_button, demo_world) (False, 40))) 41
   \<and> \<not> latch_mem (snd (poll (wrap_button, demo_world) (False, 40))) 42
   \<and> new_calls demo_world (snd (poll (wrap_button, demo_world) (False, 40))) =
       [(3, BUTTON_EVENT_LONG_PRESSED, 7), (3, BUTTON_EVENT_SUPER_LONG_PRESSED, 7),
        (3, BUTTON_EVENT_HOLD, 7)]"
    using inst fns
    by (simp add: tick_defs fields world stage_cfg_def stage_latch_def stage_events_def
        calls_of_def upt_two NULL_def)
  with now ticks fns show ?thesis
    by (intro conjI) simp_all
qed

subsection \<open>C8: polling does not depend on the handler\<close>

lemma poll_handler_independent:
  assumes "stage_mem w2 = stage_mem w1" and "latch_mem w2 = latch_mem w1"
  shows "fst (poll (b\<lparr>callback := cb, context_ptr := ctx\<rparr>, w2) x)
        = (fst (poll (b, w1) x))\<lparr>callback := cb, context_ptr := ctx\<rparr>
    \<and> stage_mem (snd (poll (b\<lparr>callback := cb, context_ptr := ctx\<rparr>, w2) x))
        = stage_mem (snd (poll (b, w1) x))
    \<and> latch_mem (snd (poll (b\<lparr>callback := cb, context_ptr := ctx\<rparr>, w2) x))
        = latch_mem (snd (poll (b, w1) x))"
proof -
  let ?b = "b\<lparr>callback := cb, context_ptr := ctx\<rparr>"
  obtain pin t where x: "x = (pin, t)"
    by (cases x) auto
  have pressed: "is_pressed ?b pin = is_pressed b pin"
    by (simp add: is_pressed_def)
  have hold: "hold_due ?b t = hold_due b t"
    by (simp add: hold_due_def)
  have cfg: "stage_cfg ?b w2 = stage_cfg b w1"
    using assms(1) by (simp add: stage_cfg_def fun_eq_iff)
  show ?thesis
  proof (cases "read_pin_func b = NULL \<or> get_tick_func b = NULL")
    case True
    then have "read_pin_func ?b = NULL \<or> get_tick_func ?b = NULL"
      by simp
    with True assms show ?thesis
      by (simp add: poll_unchecked)
  next
    case False
    then have fns: "read_pin_func b \<noteq> NULL" "get_tick_func b \<noteq> NULL"
      "read_pin_func ?b \<noteq> NULL" "get_tick_func ?b \<noteq> NULL"
      by simp_all
    show ?thesis
    proof (cases "is_pressed b pin")
      case True
      with assms show ?thesis
        unfolding x
        by (cases "last_state b")
           (simp_all add: poll_handlers [OF fns(1,2)] poll_handlers [OF fns(3,4)] pressed
             handle_state_idle_def debounce_eq pressed_eq long_pressed_fst hold
             long_pressed_stage_mem long_pressed_latch_mem cfg fun_eq_iff)
    next
      case False
      with assms show ?thesis
        unfolding x
        by (cases "last_state b")
           (simp_all add: poll_handlers [OF fns(1,2)] poll_handlers [OF fns(3,4)] pressed
             handle_state_idle_def debounce_eq pressed_eq long_released_fst
             long_released_stage_mem long_released_latch_mem fun_eq_iff)
    qed
  qed
qed

lemma polls_handler_independent:
  assumes "stage_mem w2 = stage_mem w1" and "latch_mem w2 = latch_mem w1"
  shows "fst (polls (b\<lparr>callback := cb, context_ptr := ctx\<rparr>, w2) xs)
        = (fst (polls (b, w1) xs))\<lparr>callback := cb, context_ptr := ctx\<rparr>
    \<and> stage_mem (snd (polls (b\<lparr>callback := cb, context_ptr := ctx\<rparr>, w2) xs))
        = stage_mem (snd (polls (b, w1) xs))
    \<and> latch_mem (snd (polls (b\<lparr>callback := cb, context_ptr := ctx\<rparr>, w2) xs))
        = latch_mem (snd (polls (b, w1) xs))"
  using assms
proof (induction xs arbitrary: b w1 w2)
  case Nil
  then show ?case by simp
next
  case (Cons x xs)
  let ?b = "b\<lparr>callback := cb, context_ptr := ctx\<rparr>"
  define b' where "b' = fst (poll (b, w1) x)"
  define w1' where "w1' = snd (poll (b, w1) x)"
  define w2' where "w2' = snd (poll (?b, w2) x)"
  from poll_handler_independent [OF Cons.prems, where b = b and cb = cb and ctx = ctx and x = x]
  have fst': "fst (poll (?b, w2) x) = b'\<lparr>callback := cb, context_ptr := ctx\<rparr>"
    and mem: "stage_mem w2' = stage_mem w1'" "latch_mem w2' = latch_mem w1'"
    by (simp_all add: b'_def w1'_def w2'_def)
  have step1: "poll (b, w1) x = (b', w1')"
    by (simp add: b'_def w1'_def)
  have step2: "poll (?b, w2) x = (b'\<lparr>callback := cb, context_ptr := ctx\<rparr>, w2')"
    using fst' by (simp add: w2'_def prod_eq_iff)
  from Cons.IH [OF mem, where b = b'] show ?case
    by (simp add: step1 step2)
qed

lemma polls_unregistered_delivered:
  "callback b = NULL \<Longrightarrow> delivered (snd (polls (b, w) xs)) = delivered w"
  using delivered_new_calls [of "(b, w)" xs] new_calls_polls [of "(b, w)" xs]
  by (simp add: calls_of_def)

text \<open>
  Claim C8. \<^verbatim>\<open>Button_UnregisterHandler\<close> succeeds on every record and leaves the callback
  and the context null. A poll returns the same result code and makes the same changes
  to the record and to the latch array whatever the callback and context fields hold: for
  two records that differ only in those fields, the records after a poll with the same
  pin level and tick differ only in those fields, and the worlds only in the calls
  delivered. The same holds along every polling sequence; and with no callback
  registered no call is delivered at all.
\<close>

theorem polls_ignore_handler:
  "Button_UnregisterHandler (Some b) = (BUTTON_OK, Some (b\<lparr>callback := NULL, context_ptr := NULL\<rparr>))
   \<and> fst (Button_Update (Some (b\<lparr>callback := cb, context_ptr := ctx\<rparr>)) pin t w)
        = fst (Button_Update (Some b) pin t w)
   \<and> fst (poll (b\<lparr>callback := cb, context_ptr := ctx\<rparr>, w) (pin, t))
        = (fst (poll (b, w) (pin, t)))\<lparr>callback := cb, context_ptr := ctx\<rparr>
   \<and> latch_mem (snd (poll (b\<lparr>callback := cb, context_ptr := ctx\<rparr>, w) (pin, t)))
        = latch_mem (snd (poll (b, w) (pin, t)))
   \<and> stage_mem (snd (poll (b\<lparr>callback := cb, context_ptr := ctx\<rparr>, w) (pin, t)))
        = stage_mem (snd (poll (b, w) (pin, t)))
   \<and> fst (polls (b\<lparr>callback := cb, context_ptr := ctx\<rparr>, w) xs)
        = (fst (polls (b, w) xs))\<lparr>callback := cb, context_ptr := ctx\<rparr>
   \<and> latch_mem (snd (polls (b\<lparr>callback := cb, context_ptr := ctx\<rparr>, w) xs))
        = latch_mem (snd (polls (b, w) xs))
   \<and> stage_mem (snd (polls (b\<lparr>callback := cb, context_ptr := ctx\<rparr>, w) xs))
        = stage_mem (snd (polls (b, w) xs))
   \<and> delivered (snd (polls (b\<lparr>callback := NULL, context_ptr := NULL\<rparr>, w) xs)) = delivered w"
proof -
  have c1: "Button_UnregisterHandler (Some b)
      = (BUTTON_OK, Some (b\<lparr>callback := NULL, context_ptr := NULL\<rparr>))"
    by (simp add: Button_UnregisterHandler_def)
  have c2: "fst (Button_Update (Some (b\<lparr>callback := cb, context_ptr := ctx\<rparr>)) pin t w)
      = fst (Button_Update (Some b) pin t w)"
    by (simp add: Button_Update_def Let_def)
  note c3 = poll_handler_independent
    [OF refl refl, where b = b and cb = cb and ctx = ctx and ?w1.0 = w and x = "(pin, t)"]
  note c4 = polls_handler_independent
    [OF refl refl, where b = b and cb = cb and ctx = ctx and ?w1.0 = w and xs = xs]
  have c5: "delivered (snd (polls (b\<lparr>callback := NULL, context_ptr := NULL\<rparr>, w) xs)) = delivered w"
    by (rule polls_unregistered_delivered) simp
  from c1 c2 c3 c4 c5 show ?thesis
    by (intro conjI) blast+
qed

text \<open>
  The witness: the two-stage button held since tick 0, polled at tick 150 (stage 0
  fires) and released at tick 200. With its handler it delivers two calls; unregistered
  it delivers none, and ends with the same record, up to the handler fields, and the
  same latches.
\<close>

theorem polls_ignore_handler_witness:
  "Button_UnregisterHandler (Some demo_long_button)
      = (BUTTON_OK, Some (demo_long_button\<lparr>callback := NULL, context_ptr := NULL\<rparr>))
   \<and> fst (polls (demo_long_button\<lparr>callback := NULL, context_ptr := NULL\<rparr>, demo_world)
          [(False, 150), (True, 200)])
        = (fst (polls (demo_long_button, demo_world) [(False, 150), (True, 200)]))
            \<lparr>callback := NULL, context_ptr := NULL\<rparr>
   \<and> latch_mem (snd (polls (demo_long_button\<lparr>callback := NULL, context_ptr := NULL\<rparr>, demo_world)
          [(False, 150), (True, 200)]))
        = latch_mem (snd (polls (demo_long_button, demo_world) [(False, 150), (True, 200)]))
   \<and> delivered (snd (polls (demo_long_button\<lparr>callback := NULL, context_ptr := NULL\<rparr>, demo_world)
          [(False, 150), (True, 200)])) = []
   \<and> delivered (snd (polls (demo_long_button, demo_world) [(False, 150), (True, 200)]))
        = [(3, BUTTON_EVENT_LONG_PRESSED, 7), (3, BUTTON_EVENT_RELEASED, 7)]"
proof -
  note main = polls_ignore_handler
    [where b = demo_long_button and cb = NULL and ctx = NULL and w = demo_world
       and xs = "[(False, 150), (True, 200)]" and pin = False and t = 150]
  have "delivered demo_world = []"
    by (simp add: demo_defs)
  with main have quiet: "delivered (snd (polls
      (demo_long_button\<lparr>callback := NULL, context_ptr := NULL\<rparr>, demo_world)
      [(False, 150), (True, 200)])) = []"
    by simp
  have loud: "delivered (snd (polls (demo_long_button, demo_world) [(False, 150), (True, 200)]))
      = [(3, BUTTON_EVENT_LONG_PRESSED, 7), (3, BUTTON_EVENT_RELEASED, 7)]"
    by (simp add: poll_eval demo_defs tick_defs stage_defs NULL_def upt_two)
  from main quiet loud show ?thesis
    by (intro conjI) blast+
qed

subsection \<open>C9: attaching a configuration leaves the latch array alone\<close>

text \<open>
  An event a poll dispatches is one of the four the transition table names or the event
  of a stage that poll fires.
\<close>

lemma poll_events_sources:
  assumes "e \<in> set (poll_events s x)"
  shows "e \<in> {BUTTON_EVENT_PRESSED, BUTTON_EVENT_RELEASED, BUTTON_EVENT_LONG_PRESSED,
               BUTTON_EVENT_HOLD}
    \<or> (\<exists>j\<in>set (stage_firings s [x]). e = event (stage_cfg (fst s) (snd s) j))"
proof (cases "last_state (fst s) = STATE_LONG_PRESSED \<and> is_pressed (fst s) (fst x)")
  case True
  with assms have "e = BUTTON_EVENT_HOLD
      \<or> e \<in> set (stage_events (fst s) (snd s)
                 (due_stages (fst s) (snd s) (snd x - press_start_tick (fst s))))"
    by (auto simp: poll_events_def Let_def split: if_splits)
  with True show ?thesis
    by (auto simp: stage_events_def)
next
  case False
  with assms have "e \<in> {BUTTON_EVENT_PRESSED, BUTTON_EVENT_RELEASED, BUTTON_EVENT_LONG_PRESSED,
               BUTTON_EVENT_HOLD}"
    by (cases "last_state (fst s)") (auto simp: poll_events_def Let_def split: if_splits)
  then show ?thesis ..
qed

lemma run_events_sources:
  assumes "e \<in> set (run_events s xs)"
  shows "e \<in> {BUTTON_EVENT_PRESSED, BUTTON_EVENT_RELEASED, BUTTON_EVENT_LONG_PRESSED,
               BUTTON_EVENT_HOLD}
    \<or> (\<exists>j\<in>set (stage_firings s xs). e = event (stage_cfg (fst s) (snd s) j))"
  using assms
proof (induction xs arbitrary: s)
  case Nil
  then show ?case by simp
next
  case (Cons x xs)
  have cfg: "stage_cfg (fst (poll s x)) (snd (poll s x)) = stage_cfg (fst s) (snd s)"
    by (rule stage_cfg_fields) (rule poll_fields)+
  have split: "set (stage_firings s (x # xs)) =
      set (stage_firings s [x]) \<union> set (stage_firings (poll s x) xs)"
    by simp
  from Cons.prems consider (now) "e \<in> set (poll_events s x)"
    | (later) "e \<in> set (run_events (poll s x) xs)"
    by auto
  then show ?case
  proof cases
    case now
    from poll_events_sources [OF this] show ?thesis
      unfolding split by blast
  next
    case later
    from Cons.IH [OF this] show ?thesis
      unfolding split cfg by blast
  qed
qed

lemma calls_of_event:
  "c \<in> set (calls_of b evs) \<Longrightarrow> fst (snd c) \<in> set evs"
  by (auto simp: calls_of_def split: if_splits)

text \<open>
  The calls delivered along a polling sequence without a release from \<open>LongPressed\<close>
  carry one of the four events of the transition table or the event of a configured stage
  whose latch was unset at the start.
\<close>

lemma delivered_sources:
  assumes "no_long_release s xs"
    and "c \<in> set (new_calls (snd s) (snd (polls s xs)))"
  shows "fst (snd c) \<in> {BUTTON_EVENT_PRESSED, BUTTON_EVENT_RELEASED, BUTTON_EVENT_LONG_PRESSED,
               BUTTON_EVENT_HOLD}
    \<or> (\<exists>j<unat (count (stages (fst s))). \<not> stage_latch (fst s) (snd s) j
          \<and> fst (snd c) = event (stage_cfg (fst s) (snd s) j))"
proof -
  from assms(2) have "fst (snd c) \<in> set (run_events s xs)"
    unfolding new_calls_polls by (rule calls_of_event)
  from run_events_sources [OF this] show ?thesis
  proof
    assume "fst (snd c) \<in> {BUTTON_EVENT_PRESSED, BUTTON_EVENT_RELEASED, BUTTON_EVENT_LONG_PRESSED,
               BUTTON_EVENT_HOLD}"
    then show ?thesis ..
  next
    assume "\<exists>j\<in>set (stage_firings s xs). fst (snd c) = event (stage_cfg (fst s) (snd s) j)"
    then obtain j where j: "j \<in> set (stage_firings s xs)"
      and ev: "fst (snd c) = event (stage_cfg (fst s) (snd s) j)"
      by blast
    from j have "j < unat (count (stages (fst s)))"
      by (rule stage_firings_bound)
    moreover have "\<not> stage_latch (fst s) (snd s) j"
      using latch_kept [OF _ assms(1), of j] j by blast
    ultimately show ?thesis
      using ev by blast
  qed
qed

text \<open>
  Claim C9. \<^verbatim>\<open>Button_ConfigStages\<close> writes nothing but the stage fields of the button
  record: the world, and with it the caller's latch array, is returned unchanged, and the
  record differs from the one passed in at most in its stage fields. Consequently a latch
  that is already set when the configuration is attached stays set and keeps its stage
  from firing along every polling sequence without a release from \<open>LongPressed\<close>; the
  first release from \<open>LongPressed\<close> clears the whole array. In terms of the calls the
  callback receives along such a sequence: they are those of the events of the transition
  table with the stage scan restricted to unlatched stages, so each of them carries one of
  the four events the state machine dispatches itself or the event of a configured stage
  whose latch was unset when the configuration was attached; hence the event of a stage
  latched at that moment is not delivered at all, unless it is one of those four or also
  the event of such an unlatched stage.
\<close>

theorem config_stages_leaves_latches:
  "snd (snd (Button_ConfigStages button cfgs lats cnt w)) = w
   \<and> (fst (snd (Button_ConfigStages (Some b) cfgs lats cnt w)) = Some b' \<longrightarrow>
        b'\<lparr>stages := stages b\<rparr> = b)
   \<and> (Button_ConfigStages (Some b) cfgs lats cnt w = (BUTTON_OK, Some b', w')
        \<and> k < unat cnt \<and> latch_mem w (lats + k) \<and> no_long_release (b', w') xs \<longrightarrow>
        k \<notin> set (stage_firings (b', w') xs)
        \<and> stage_latch (fst (polls (b', w') xs)) (snd (polls (b', w') xs)) k)
   \<and> (Button_ConfigStages (Some b) cfgs lats cnt w = (BUTTON_OK, Some b', w')
        \<and> read_pin_func b \<noteq> NULL \<and> get_tick_func b \<noteq> NULL
        \<and> last_state (fst (polls (b', w') xs)) = STATE_LONG_PRESSED \<and> \<not> is_pressed b pin \<longrightarrow>
        last_state (fst (poll (polls (b', w') xs) (pin, t))) = STATE_IDLE
        \<and> (\<forall>j<unat cnt.
              \<not> stage_latch (fst (poll (polls (b', w') xs) (pin, t)))
                   (snd (poll (polls (b', w') xs) (pin, t))) j))
   \<and> (Button_ConfigStages (Some b) cfgs lats cnt w = (BUTTON_OK, Some b', w')
        \<and> no_long_release (b', w') xs \<longrightarrow>
        new_calls w' (snd (polls (b', w') xs)) = calls_of b' (run_events (b', w') xs)
        \<and> (\<forall>c\<in>set (new_calls w' (snd (polls (b', w') xs))).
              fst (snd c) \<in> {BUTTON_EVENT_PRESSED, BUTTON_EVENT_RELEASED, BUTTON_EVENT_LONG_PRESSED,
               BUTTON_EVENT_HOLD}
              \<or> (\<exists>j<unat cnt. \<not> latch_mem w (lats + j)
                    \<and> fst (snd c) = event (stage_mem w (cfgs + j)))))
   \<and> (Button_ConfigStages (Some b) cfgs lats cnt w = (BUTTON_OK, Some b', w')
        \<and> k < unat cnt \<and> latch_mem w (lats + k) \<and> no_long_release (b', w') xs
        \<and> event (stage_mem w (cfgs + k)) \<notin> {BUTTON_EVENT_PRESSED, BUTTON_EVENT_RELEASED, BUTTON_EVENT_LONG_PRESSED,
               BUTTON_EVENT_HOLD}
        \<and> (\<forall>j<unat cnt. \<not> latch_mem w (lats + j) \<longrightarrow>
              event (stage_mem w (cfgs + j)) \<noteq> event (stage_mem w (cfgs + k))) \<longrightarrow>
        event (stage_mem w (cfgs + k))
          \<notin> set (events_of (new_calls w' (snd (polls (b', w') xs)))))"
proof -
  have c1: "snd (snd (Button_ConfigStages button cfgs lats cnt w)) = w"
    by (cases button) (simp_all add: Button_ConfigStages_def)
  have c2: "b'\<lparr>stages := stages b\<rparr> = b"
    if "fst (snd (Button_ConfigStages (Some b) cfgs lats cnt w)) = Some b'"
    using that by (auto simp: Button_ConfigStages_def split: if_splits)
  have attached: "b' = b\<lparr>stages := \<lparr>configs = cfgs, latches = lats, count = cnt\<rparr>\<rparr>
      \<and> w' = w \<and> lats \<noteq> NULL"
    if "Button_ConfigStages (Some b) cfgs lats cnt w = (BUTTON_OK, Some b', w')"
    using that by (auto simp: Button_ConfigStages_def split: if_splits)
  have c3: "k \<notin> set (stage_firings (b', w') xs)
      \<and> stage_latch (fst (polls (b', w') xs)) (snd (polls (b', w') xs)) k"
    if "Button_ConfigStages (Some b) cfgs lats cnt w = (BUTTON_OK, Some b', w')
        \<and> k < unat cnt \<and> latch_mem w (lats + k) \<and> no_long_release (b', w') xs"
  proof -
    from that attached have "stage_latch (fst (b', w')) (snd (b', w')) k"
      by (simp add: stage_latch_def)
    moreover from that have "no_long_release (b', w') xs"
      by simp
    ultimately show ?thesis
      using latch_kept by blast
  qed
  have c4: "last_state (fst (poll (polls (b', w') xs) (pin, t))) = STATE_IDLE
      \<and> (\<forall>j<unat cnt.
            \<not> stage_latch (fst (poll (polls (b', w') xs) (pin, t)))
                 (snd (poll (polls (b', w') xs) (pin, t))) j)"
    if "Button_ConfigStages (Some b) cfgs lats cnt w = (BUTTON_OK, Some b', w')
        \<and> read_pin_func b \<noteq> NULL \<and> get_tick_func b \<noteq> NULL
        \<and> last_state (fst (polls (b', w') xs)) = STATE_LONG_PRESSED \<and> \<not> is_pressed b pin"
  proof -
    obtain b2 w2 where s2: "polls (b', w') xs = (b2, w2)"
      by (cases "polls (b', w') xs") auto
    from that attached have b': "b' = b\<lparr>stages := \<lparr>configs = cfgs, latches = lats, count = cnt\<rparr>\<rparr>"
      and lats: "lats \<noteq> NULL"
      by simp_all
    have same: "stages b2 = \<lparr>configs = cfgs, latches = lats, count = cnt\<rparr>"
      "read_pin_func b2 = read_pin_func b" "get_tick_func b2 = get_tick_func b"
      "active_level b2 = active_level b"
      using polls_fields [of "(b', w')" xs] unfolding s2 by (simp_all add: b')
    have "is_pressed b2 = is_pressed b"
      using same(4) by (rule is_pressed_fields)
    with that have release: "poll (b2, w2) (pin, t) = handle_state_long b2 False t w2"
      by (simp add: poll_handlers same s2)
    show ?thesis
      unfolding s2 release using lats
      by (simp add: long_released_fst long_released_latch_mem stage_latch_def same)
  qed
  have c5: "new_calls w' (snd (polls (b', w') xs)) = calls_of b' (run_events (b', w') xs)
      \<and> (\<forall>c\<in>set (new_calls w' (snd (polls (b', w') xs))).
            fst (snd c) \<in> {BUTTON_EVENT_PRESSED, BUTTON_EVENT_RELEASED, BUTTON_EVENT_LONG_PRESSED,
               BUTTON_EVENT_HOLD}
            \<or> (\<exists>j<unat cnt. \<not> latch_mem w (lats + j)
                  \<and> fst (snd c) = event (stage_mem w (cfgs + j))))"
    if "Button_ConfigStages (Some b) cfgs lats cnt w = (BUTTON_OK, Some b', w')
        \<and> no_long_release (b', w') xs"
  proof
    show "new_calls w' (snd (polls (b', w') xs)) = calls_of b' (run_events (b', w') xs)"
      using new_calls_polls [of "(b', w')" xs] by simp
    from that attached have b': "b' = b\<lparr>stages := \<lparr>configs = cfgs, latches = lats, count = cnt\<rparr>\<rparr>"
      and w': "w' = w" and quiet: "no_long_release (b', w') xs"
      by simp_all
    show "\<forall>c\<in>set (new_calls w' (snd (polls (b', w') xs))).
            fst (snd c) \<in> {BUTTON_EVENT_PRESSED, BUTTON_EVENT_RELEASED, BUTTON_EVENT_LONG_PRESSED,
               BUTTON_EVENT_HOLD}
            \<or> (\<exists>j<unat cnt. \<not> latch_mem w (lats + j)
                  \<and> fst (snd c) = event (stage_mem w (cfgs + j)))"
    proof
      fix c
      assume "c \<in> set (new_calls w' (snd (polls (b', w') xs)))"
      then have "c \<in> set (new_calls (snd (b', w')) (snd (polls (b', w') xs)))"
        by simp
      from delivered_sources [OF quiet this]
      show "fst (snd c) \<in> {BUTTON_EVENT_PRESSED, BUTTON_EVENT_RELEASED, BUTTON_EVENT_LONG_PRESSED,
               BUTTON_EVENT_HOLD}
            \<or> (\<exists>j<unat cnt. \<not> latch_mem w (lats + j)
                  \<and> fst (snd c) = event (stage_mem w (cfgs + j)))"
        by (simp add: b' w' stage_latch_def stage_cfg_def)
    qed
  qed
  have c6: "event (stage_mem w (cfgs + k))
        \<notin> set (events_of (new_calls w' (snd (polls (b', w') xs))))"
    if "Button_ConfigStages (Some b) cfgs lats cnt w = (BUTTON_OK, Some b', w')
        \<and> k < unat cnt \<and> latch_mem w (lats + k) \<and> no_long_release (b', w') xs
        \<and> event (stage_mem w (cfgs + k)) \<notin> {BUTTON_EVENT_PRESSED, BUTTON_EVENT_RELEASED, BUTTON_EVENT_LONG_PRESSED,
               BUTTON_EVENT_HOLD}
        \<and> (\<forall>j<unat cnt. \<not> latch_mem w (lats + j) \<longrightarrow>
              event (stage_mem w (cfgs + j)) \<noteq> event (stage_mem w (cfgs + k)))"
  proof
    assume "event (stage_mem w (cfgs + k))
        \<in> set (events_of (new_calls w' (snd (polls (b', w') xs))))"
    then obtain c where c: "c \<in> set (new_calls w' (snd (polls (b', w') xs)))"
      and ev: "fst (snd c) = event (stage_mem w (cfgs + k))"
      by (auto simp: events_of_def)
    from that have "Button_ConfigStages (Some b) cfgs lats cnt w = (BUTTON_OK, Some b', w')
        \<and> no_long_release (b', w') xs"
      by simp
    from c5 [OF this] c have "fst (snd c) \<in> {BUTTON_EVENT_PRESSED, BUTTON_EVENT_RELEASED, BUTTON_EVENT_LONG_PRESSED,
               BUTTON_EVENT_HOLD}
            \<or> (\<exists>j<unat cnt. \<not> latch_mem w (lats + j)
                  \<and> fst (snd c) = event (stage_mem w (cfgs + j)))"
      by blast
    with that ev show False
      by auto
  qed
  from c1 c2 c3 c4 c5 c6 show ?thesis
    by (intro conjI impI) blast+
qed

text \<open>
  The witness: the latch of stage 1 (cell 41) is set when the two-stage configuration is
  attached. The press validated at tick 50 becomes a long press at tick 1050; at tick
  1300 the hold time is 250, past both thresholds, yet only stage 0 fires: the callback
  receives \<open>Pressed\<close>, \<open>LongPressed\<close> (the transition) and \<open>LongPressed\<close> (the event
  of stage 0), and never \<open>SuperLongPressed\<close>, the event of stage 1. The release at tick
  1400 clears both latches.
\<close>

theorem config_stages_leaves_latches_witness:
  "Button_ConfigStages (Some demo_registered_button) 10 40 2 demo_preset_world
      = (BUTTON_OK, Some demo_staged_button, demo_preset_world)
   \<and> demo_staged_button\<lparr>stages := stages demo_registered_button\<rparr> = demo_registered_button
   \<and> (1 :: nat) < unat (2 :: u8) \<and> latch_mem demo_preset_world (40 + 1)
   \<and> no_long_release (demo_staged_button, demo_preset_world)
        [(False, 0), (False, 50), (False, 1050), (False, 1300)]
   \<and> stage_firings (demo_staged_button, demo_preset_world)
        [(False, 0), (False, 50), (False, 1050), (False, 1300)] = [0]
   \<and> 1 \<notin> set (stage_firings (demo_staged_button, demo_preset_world)
        [(False, 0), (False, 50), (False, 1050), (False, 1300)])
   \<and> stage_latch
        (fst (polls (demo_staged_button, demo_preset_world)
           [(False, 0), (False, 50), (False, 1050), (False, 1300)]))
        (snd (polls (demo_staged_button, demo_preset_world)
           [(False, 0), (False, 50), (False, 1050), (False, 1300)])) 1
   \<and> read_pin_func demo_registered_button \<noteq> NULL
   \<and> get_tick_func demo_registered_button \<noteq> NULL
   \<and> last_state (fst (polls (demo_staged_button, demo_preset_world)
           [(False, 0), (False, 50), (False, 1050), (False, 1300)])) = STATE_LONG_PRESSED
   \<and> \<not> is_pressed demo_registered_button True
   \<and> last_state (fst (poll (polls (demo_staged_button, demo_preset_world)
           [(False, 0), (False, 50), (False, 1050), (False, 1300)]) (True, 1400))) = STATE_IDLE
   \<and> \<not> stage_latch
        (fst (poll (polls (demo_staged_button, demo_preset_world)
           [(False, 0), (False, 50), (False, 1050), (False, 1300)]) (True, 1400)))
        (snd (poll (polls (demo_staged_button, demo_preset_world)
           [(False, 0), (False, 50), (False, 1050), (False, 1300)]) (True, 1400))) 0
   \<and> \<not> stage_latch
        (fst (poll (polls (demo_staged_button, demo_preset_world)
           [(False, 0), (False, 50), (False, 1050), (False, 1300)]) (True, 1400)))
        (snd (poll (polls (demo_staged_button, demo_preset_world)
           [(False, 0), (False, 50), (False, 1050), (False, 1300)]) (True, 1400))) 1
   \<and> threshold (stage_mem demo_preset_world (10 + 1)) = 200
   \<and> event (stage_mem demo_preset_world (10 + 1)) = BUTTON_EVENT_SUPER_LONG_PRESSED
   \<and> \<not> latch_mem demo_preset_world (40 + 0)
   \<and> event (stage_mem demo_preset_world (10 + 0)) = BUTTON_EVENT_LONG_PRESSED
   \<and> run_events (demo_staged_button, demo_preset_world)
        [(False, 0), (False, 50), (False, 1050), (False, 1300)]
       = [BUTTON_EVENT_PRESSED, BUTTON_EVENT_LONG_PRESSED, BUTTON_EVENT_LONG_PRESSED]
   \<and> new_calls demo_preset_world
        (snd (polls (demo_staged_button, demo_preset_world)
           [(False, 0), (False, 50), (False, 1050), (False, 1300)]))
       = [(3, BUTTON_EVENT_PRESSED, 7), (3, BUTTON_EVENT_LONG_PRESSED, 7),
          (3, BUTTON_EVENT_LONG_PRESSED, 7)]
   \<and> BUTTON_EVENT_SUPER_LONG_PRESSED
       \<notin> set (events_of (new_calls demo_preset_world
           (snd (polls (demo_staged_button, demo_preset_world)
              [(False, 0), (False, 50), (False, 1050), (False, 1300)]))))"
proof -
  let ?xs = "[(False, 0), (False, 50), (False, 1050), (False, 1300 :: u32)]"
  let ?s = "polls (demo_staged_button, demo_preset_world) ?xs"
  have cfg: "Button_ConfigStages (Some demo_registered_button) 10 40 2 demo_preset_world
      = (BUTTON_OK, Some demo_staged_button, demo_preset_world)"
    by (simp add: Button_ConfigStages_def validate_stages_def validate_stages_from.simps
        demo_defs NULL_def)
  have fns: "read_pin_func demo_registered_button \<noteq> NULL"
    "get_tick_func demo_registered_button \<noteq> NULL"
    and rel: "\<not> is_pressed demo_registered_button True"
    by (simp_all add: demo_defs is_pressed_def NULL_def)
  have k: "(1 :: nat) < unat (2 :: u8)" and preset: "latch_mem demo_preset_world (40 + 1)"
    by (simp_all add: demo_defs)
  define b3 where "b3 = demo_staged_button\<lparr>last_state := STATE_LONG_PRESSED,
      last_change_tick := 1050, press_start_tick := 1050, last_hold_tick := 1050\<rparr>"
  define w3 where "w3 = snd (polls (demo_staged_button, demo_preset_world)
      [(False, 0), (False, 50), (False, 1050)])"
  have "fst (polls (demo_staged_button, demo_preset_world) [(False, 0), (False, 50), (False, 1050)])
      = b3"
    by (simp add: b3_def poll_eval demo_defs tick_defs NULL_def)
  then have s3: "polls (demo_staged_button, demo_preset_world)
      [(False, 0), (False, 50), (False, 1050)] = (b3, w3)"
    by (simp add: w3_def prod_eq_iff)
  have w3: "stage_mem w3 = demo_stage_mem" "\<not> latch_mem w3 40" "latch_mem w3 41"
    by (simp_all add: w3_def poll_eval demo_defs tick_defs NULL_def)
  have due3: "due_stages b3 w3 (1300 - press_start_tick b3) = [0]"
    by (simp add: b3_def w3 stage_defs demo_defs NULL_def upt_two)
  have quiet: "no_long_release (demo_staged_button, demo_preset_world) ?xs"
    by (simp add: poll_eval demo_defs tick_defs NULL_def)
  have "stage_firings (demo_staged_button, demo_preset_world)
      ([(False, 0), (False, 50), (False, 1050)] @ [(False, 1300)])
      = stage_firings (demo_staged_button, demo_preset_world)
          [(False, 0), (False, 50), (False, 1050)]
        @ stage_firings (b3, w3) [(False, 1300)]"
    by (simp only: stage_firings_append s3)
  also have "stage_firings (demo_staged_button, demo_preset_world)
      [(False, 0), (False, 50), (False, 1050)] = []"
    by (simp add: poll_eval demo_defs tick_defs NULL_def)
  also have "stage_firings (b3, w3) [(False, 1300)] = [0]"
    using due3 by (simp add: b3_def is_pressed_def demo_defs)
  finally have fired: "stage_firings (demo_staged_button, demo_preset_world) ?xs = [0]"
    by simp
  note main = config_stages_leaves_latches
    [of "Some demo_registered_button" 10 40 2 demo_preset_world demo_registered_button
      demo_staged_button demo_preset_world 1 ?xs True 1400]
  have frame: "demo_staged_button\<lparr>stages := stages demo_registered_button\<rparr> = demo_registered_button"
    using main cfg by simp
  have kept: "1 \<notin> set (stage_firings (demo_staged_button, demo_preset_world) ?xs)"
    "stage_latch (fst ?s) (snd ?s) 1"
    using main cfg k preset quiet by blast+
  have "polls (demo_staged_button, demo_preset_world)
      ([(False, 0), (False, 50), (False, 1050)] @ [(False, 1300)]) = poll (b3, w3) (False, 1300)"
    by (simp only: polls_append s3) simp
  then have long: "last_state (fst ?s) = STATE_LONG_PRESSED"
    by (simp add: b3_def poll_handlers long_pressed_state demo_defs is_pressed_def NULL_def)
  from main cfg fns long rel
  have cleared: "last_state (fst (poll ?s (True, 1400))) = STATE_IDLE"
    "\<forall>j<unat (2 :: u8). \<not> stage_latch (fst (poll ?s (True, 1400))) (snd (poll ?s (True, 1400))) j"
    by blast+
  from cleared(2) have clear: "\<not> stage_latch (fst (poll ?s (True, 1400))) (snd (poll ?s (True, 1400))) 0"
    "\<not> stage_latch (fst (poll ?s (True, 1400))) (snd (poll ?s (True, 1400))) 1"
    by simp_all
  have cells: "threshold (stage_mem demo_preset_world (10 + 1)) = 200"
    "event (stage_mem demo_preset_world (10 + 1)) = BUTTON_EVENT_SUPER_LONG_PRESSED"
    "\<not> latch_mem demo_preset_world (40 + 0)"
    "event (stage_mem demo_preset_world (10 + 0)) = BUTTON_EVENT_LONG_PRESSED"
    by (simp_all add: demo_defs)
  have "run_events (demo_staged_button, demo_preset_world)
      ([(False, 0), (False, 50), (False, 1050)] @ [(False, 1300)])
      = run_events (demo_staged_button, demo_preset_world)
          [(False, 0), (False, 50), (False, 1050)]
        @ run_events (b3, w3) [(False, 1300)]"
    by (simp only: run_events_append s3)
  also have "run_events (demo_staged_button, demo_preset_world)
      [(False, 0), (False, 50), (False, 1050)]
      = [BUTTON_EVENT_PRESSED, BUTTON_EVENT_LONG_PRESSED]"
    by (simp add: poll_events_def poll_eval demo_defs tick_defs NULL_def)
  also have "run_events (b3, w3) [(False, 1300)] = [BUTTON_EVENT_LONG_PRESSED]"
    using due3
    by (simp add: poll_events_def Let_def b3_def w3 is_pressed_def demo_defs tick_defs NULL_def
        stage_events_def stage_cfg_def)
  finally have events: "run_events (demo_staged_button, demo_preset_world) ?xs
      = [BUTTON_EVENT_PRESSED, BUTTON_EVENT_LONG_PRESSED, BUTTON_EVENT_LONG_PRESSED]"
    by simp
  from main cfg quiet
  have "new_calls demo_preset_world (snd ?s) = calls_of demo_staged_button
      (run_events (demo_staged_button, demo_preset_world) ?xs)"
    by blast
  then have calls: "new_calls demo_preset_world (snd ?s)
       = [(3, BUTTON_EVENT_PRESSED, 7), (3, BUTTON_EVENT_LONG_PRESSED, 7),
          (3, BUTTON_EVENT_LONG_PRESSED, 7)]"
    unfolding events by (simp add: calls_of_def demo_defs NULL_def)
  have others: "\<forall>j<unat (2 :: u8). \<not> latch_mem demo_preset_world (40 + j) \<longrightarrow>
      event (stage_mem demo_preset_world (10 + j)) \<noteq> event (stage_mem demo_preset_world (10 + 1))"
    by (auto simp: demo_defs less_2_cases_iff)
  have own: "event (stage_mem demo_preset_world (10 + 1))
      \<notin> {BUTTON_EVENT_PRESSED, BUTTON_EVENT_RELEASED, BUTTON_EVENT_LONG_PRESSED,
           BUTTON_EVENT_HOLD}"
    by (simp add: demo_defs)
  from main cfg k preset quiet own others
  have "event (stage_mem demo_preset_world (10 + 1))
      \<notin> set (events_of (new_calls demo_preset_world (snd ?s)))"
    by blast
  then have silent: "BUTTON_EVENT_SUPER_LONG_PRESSED
      \<notin> set (events_of (new_calls demo_preset_world (snd ?s)))"
    unfolding cells(2) .
  note cleared(1)
  show ?thesis
    by (intro conjI; fact)
qed

subsection \<open>C10: the stage invariant along the public interface\<close>

lemma validate_stages_sorted:
  assumes "validate_stages mem cfg cnt"
  shows "sorted_wrt (<) (map (\<lambda>k. threshold (mem (cfg + k))) [0..<unat cnt])"
  using validate_stages_strict_mono [OF assms]
  by (simp add: sorted_wrt_map sorted_wrt_iff_nth_less)

lemma validate_stages_first:
  "validate_stages mem cfg cnt \<Longrightarrow> threshold (mem cfg) \<noteq> 0"
  by (simp add: validate_stages_iff)

lemma stages_ok_cong:
  "stages b' = stages b \<Longrightarrow> stage_mem w' = stage_mem w \<Longrightarrow> stages_ok b' w' = stages_ok b w"
  by (simp add: stages_ok_def stage_cfg_def)

lemma stages_ok_empty:
  "count (stages b) = 0 \<Longrightarrow> stages_ok b w"
  by (simp add: stages_ok_def)

lemma config_stages_ok:
  assumes "stages_ok b w"
  shows "stages_ok (record_after b (fst (snd (Button_ConfigStages (Some b) cfgs lats cnt w))))
           (snd (snd (Button_ConfigStages (Some b) cfgs lats cnt w)))"
proof (cases "cfgs = NULL \<or> lats = NULL \<or> cnt = 0 \<or> \<not> validate_stages (stage_mem w) cfgs cnt")
  case True
  then have "Button_ConfigStages (Some b) cfgs lats cnt w = (BUTTON_ERR_INVALID_ARG, Some b, w)
      \<or> Button_ConfigStages (Some b) cfgs lats cnt w = (BUTTON_ERR_INVALID_STAGES, Some b, w)"
    by (auto simp add: Button_ConfigStages_def)
  then show ?thesis
    using assms by (auto simp add: record_after_def)
next
  case False
  then have valid: "validate_stages (stage_mem w) cfgs cnt"
    and ptrs: "cfgs \<noteq> NULL" "lats \<noteq> NULL"
    by simp_all
  from False have eq: "Button_ConfigStages (Some b) cfgs lats cnt w =
      (BUTTON_OK, Some (b\<lparr>stages := \<lparr>configs = cfgs, latches = lats, count = cnt\<rparr>\<rparr>), w)"
    by (simp add: Button_ConfigStages_def)
  show ?thesis
    using validate_stages_sorted [OF valid] validate_stages_first [OF valid] ptrs
    by (simp add: eq record_after_def stages_ok_def stage_cfg_def)
qed

lemma api_step_stages_ok:
  assumes "stages_ok (fst s) (snd s)"
  shows "stages_ok (fst (api_step s c)) (snd (api_step s c))"
proof (cases c)
  case (Init gpio level read_fn tick_fn now)
  show ?thesis
    using assms
    by (simp add: Init Button_Init_def record_after_def stages_ok_def)
next
  case (ConfigStages cfgs lats cnt)
  show ?thesis
    using config_stages_ok [OF assms] by (simp add: ConfigStages)
next
  case (Update pin_level tick)
  have "stages_ok (fst (poll s (pin_level, tick))) (snd (poll s (pin_level, tick))) =
      stages_ok (fst s) (snd s)"
    by (rule stages_ok_cong) (rule poll_fields)+
  with assms show ?thesis
    by (simp add: Update)
next
  case (RegisterHandler cb ctx)
  have "stages_ok (fst s\<lparr>callback := cb, context_ptr := ctx\<rparr>) (snd s) = stages_ok (fst s) (snd s)"
    by (rule stages_ok_cong) simp_all
  with assms show ?thesis
    by (simp add: RegisterHandler Button_RegisterHandler_def record_after_def)
next
  case UnregisterHandler
  have "stages_ok (fst s\<lparr>callback := NULL, context_ptr := NULL\<rparr>) (snd s) =
      stages_ok (fst s) (snd s)"
    by (rule stages_ok_cong) simp_all
  with assms show ?thesis
    by (simp add: UnregisterHandler Button_UnregisterHandler_def record_after_def)
next
  case Deinit
  show ?thesis
    by (simp add: Deinit Button_Deinit_def record_after_def stages_ok_def)
qed

lemma api_run_stages_ok:
  "stages_ok (fst s) (snd s) \<Longrightarrow> stages_ok (fst (api_run s cs)) (snd (api_run s cs))"
proof (induction cs arbitrary: s)
  case Nil
  then show ?case by simp
next
  case (Cons c cs)
  from Cons.IH [OF api_step_stages_ok [OF Cons.prems, of c]]
  show ?case by simp
qed

lemma init_stages:
  assumes "Button_Init (Some b0) gpio level read_fn tick_fn now = (BUTTON_OK, Some b)"
  shows "stages b = \<lparr>configs = NULL, latches = NULL, count = 0\<rparr>"
  using assms by (auto simp add: Button_Init_def split: if_splits)

lemma clear_latches_none:
  "count (stages b) = 0 \<Longrightarrow> clear_latches b 0 w = w"
  by (subst clear_latches.simps) simp

lemma stage_scan_none:
  "count (stages b) = 0 \<Longrightarrow> stage_scan b tot 0 w = w"
  by (subst stage_scan.simps) simp

text \<open>
  Claim C10. A record that \<^verbatim>\<open>Button_Init\<close> has set up, whatever sequence of calls of the
  public interface is then applied to it (\<^verbatim>\<open>Button_Init\<close>, \<^verbatim>\<open>Button_ConfigStages\<close>,
  \<^verbatim>\<open>Button_Update\<close>, \<^verbatim>\<open>Button_RegisterHandler\<close>, \<^verbatim>\<open>Button_UnregisterHandler\<close>,
  \<^verbatim>\<open>Button_Deinit\<close>, succeeding or not), satisfies the stage invariant: a nonzero stage
  count comes with both arrays attached, a nonzero first threshold and thresholds
  strictly increasing by index. The configuration array is read through the record and
  no call of the interface writes it. For any record with a stage count of zero the
  stage scan and the latch-clearing loop leave the world as it is, so that a poll in
  state \<open>LongPressed\<close> only moves the state back to \<open>Idle\<close> and dispatches \<open>Released\<close>
  on release, and only runs the hold-repeat scan while pressed.
\<close>

theorem init_establishes_stage_invariant:
  assumes "Button_Init (Some b0) gpio level read_fn tick_fn now = (BUTTON_OK, Some b)"
  shows "stages_ok (fst (api_run (b, w) cs)) (snd (api_run (b, w) cs))
    \<and> stage_mem (snd (api_run (b, w) cs)) = stage_mem w
    \<and> (count (stages b') = 0 \<longrightarrow>
          stage_scan b' tot 0 w' = w'
        \<and> clear_latches b' 0 w' = w'
        \<and> handle_state_long b' False t w' =
            (b'\<lparr>last_state := STATE_IDLE\<rparr>,
             dispatch (b'\<lparr>last_state := STATE_IDLE\<rparr>) BUTTON_EVENT_RELEASED w')
        \<and> handle_state_long b' True t w' =
            (if hold_due b' t
             then (b'\<lparr>last_hold_tick := t\<rparr>,
                   dispatch (b'\<lparr>last_hold_tick := t\<rparr>) BUTTON_EVENT_HOLD w')
             else (b', w')))"
proof -
  have "stages_ok b w"
    by (rule stages_ok_empty) (simp add: init_stages [OF assms])
  then have inv: "stages_ok (fst (api_run (b, w) cs)) (snd (api_run (b, w) cs))"
    using api_run_stages_ok [of "(b, w)" cs] by simp
  have mem_step: "stage_mem (snd (api_step s c)) = stage_mem (snd s)" for s c
    by (cases c) (simp_all add: poll_fields Button_ConfigStages_def)
  have mem: "stage_mem (snd (api_run s cs)) = stage_mem (snd s)" for s
    by (induction cs arbitrary: s) (simp_all add: mem_step)
  have zero: "stage_scan b' tot 0 w' = w'
        \<and> clear_latches b' 0 w' = w'
        \<and> handle_state_long b' False t w' =
            (b'\<lparr>last_state := STATE_IDLE\<rparr>,
             dispatch (b'\<lparr>last_state := STATE_IDLE\<rparr>) BUTTON_EVENT_RELEASED w')
        \<and> handle_state_long b' True t w' =
            (if hold_due b' t
             then (b'\<lparr>last_hold_tick := t\<rparr>,
                   dispatch (b'\<lparr>last_hold_tick := t\<rparr>) BUTTON_EVENT_HOLD w')
             else (b', w'))"
    if "count (stages b') = 0"
  proof -
    have "count (stages (b'\<lparr>last_state := STATE_IDLE\<rparr>)) = 0"
      using that by simp
    note clear = clear_latches_none [OF this]
    show ?thesis
      using that
      by (simp add: stage_scan_none clear_latches_none clear handle_state_long_def Let_def
          hold_due_def)
  qed
  from inv mem [of "(b, w)"] zero show ?thesis
    by simp
qed

lemma demo_validate_stages:
  "validate_stages demo_stage_mem 10 2"
  "\<not> validate_stages demo_stage_mem 20 2"
  "\<not> validate_stages demo_stage_mem 30 2"
  by (simp_all add: validate_stages_def validate_stages_from.simps NULL_def)

theorem init_establishes_stage_invariant_witness:
  "Button_Init (Some demo_button) 4 BUTTON_ACTIVE_LOW 1 2 0 = (BUTTON_OK, Some demo_button)
   \<and> stages (fst (api_run (demo_button, demo_world)
        [ConfigStages 20 40 2, ConfigStages 10 40 2, RegisterHandler 3 7, Update False 10,
         ConfigStages 30 40 2]))
       = \<lparr>configs = 10, latches = 40, count = 2\<rparr>
   \<and> stages_ok
        (fst (api_run (demo_button, demo_world)
          [ConfigStages 20 40 2, ConfigStages 10 40 2, RegisterHandler 3 7, Update False 10,
           ConfigStages 30 40 2]))
        (snd (api_run (demo_button, demo_world)
          [ConfigStages 20 40 2, ConfigStages 10 40 2, RegisterHandler 3 7, Update False 10,
           ConfigStages 30 40 2]))
   \<and> stage_mem (snd (api_run (demo_button, demo_world)
        [ConfigStages 20 40 2, ConfigStages 10 40 2, RegisterHandler 3 7, Update False 10,
         ConfigStages 30 40 2]))
       = demo_stage_mem
   \<and> count (stages demo_button) = 0
   \<and> stage_scan demo_button 5000 0 demo_world = demo_world
   \<and> clear_latches demo_button 0 demo_world = demo_world
   \<and> handle_state_long demo_button False 2000 demo_world =
       (demo_button\<lparr>last_state := STATE_IDLE\<rparr>, demo_world)
   \<and> handle_state_long demo_button True 2000 demo_world =
       (demo_button\<lparr>last_hold_tick := 2000\<rparr>, demo_world)"
proof -
  define cs where "cs = [ConfigStages 20 40 2, ConfigStages 10 40 2, RegisterHandler 3 7,
    Update False 10, ConfigStages 30 40 2]"
  have init: "Button_Init (Some demo_button) 4 BUTTON_ACTIVE_LOW 1 2 0
      = (BUTTON_OK, Some demo_button)"
    by (simp add: Button_Init_def demo_button_def NULL_def)
  have none: "count (stages demo_button) = 0"
    by (simp add: demo_button_def)
  note inst = init_establishes_stage_invariant
    [OF init, of demo_world cs demo_button 5000 demo_world 2000]
  have run: "stages (fst (api_run (demo_button, demo_world) cs))
      = \<lparr>configs = 10, latches = 40, count = 2\<rparr>"
    by (simp add: cs_def Button_ConfigStages_def Button_RegisterHandler_def record_after_def
        poll_fields demo_validate_stages demo_world_def NULL_def)
  have quiet: "dispatch (demo_button\<lparr>last_state := STATE_IDLE\<rparr>) BUTTON_EVENT_RELEASED demo_world
      = demo_world"
    "dispatch (demo_button\<lparr>last_hold_tick := 2000\<rparr>) BUTTON_EVENT_HOLD demo_world = demo_world"
    by (simp_all add: dispatch_def demo_button_def)
  have due: "hold_due demo_button 2000"
    by (simp add: tick_defs demo_button_def)
  from inst none have "stages_ok (fst (api_run (demo_button, demo_world) cs))
        (snd (api_run (demo_button, demo_world) cs))
   \<and> stage_mem (snd (api_run (demo_button, demo_world) cs)) = demo_stage_mem
   \<and> stage_scan demo_button 5000 0 demo_world = demo_world
   \<and> clear_latches demo_button 0 demo_world = demo_world
   \<and> handle_state_long demo_button False 2000 demo_world =
       (demo_button\<lparr>last_state := STATE_IDLE\<rparr>, demo_world)
   \<and> handle_state_long demo_button True 2000 demo_world =
       (demo_button\<lparr>last_hold_tick := 2000\<rparr>, demo_world)"
    by (simp add: quiet due demo_world_def [symmetric]) (simp add: demo_world_def)
  with init run none show ?thesis
    unfolding cs_def by (intro conjI) simp_all
qed

end
